theory Spec2Isabelle
  imports Main "HOL-Library.Sublist"
begin

section \<open>Paths (Node's \<open>path\<close> module, POSIX flavour)\<close>

text \<open>
  The three commands manipulate paths as strings, through Node's \<open>path\<close> module. The
  module is not part of the repository; it is modelled here for POSIX (\<open>path.sep\<close> is
  \<open>/\<close>). A path string is cut at the separators into its fields; the empty fields
  (doubled, leading and trailing separators) carry no meaning and are dropped.
\<close>

definition sep :: string where
  "sep = ''/''"

fun splitSep :: "string \<Rightarrow> string list" where
  "splitSep [] = [[]]"
| "splitSep (c # cs) =
     (if c = CHR ''/'' then [] # splitSep cs
      else (case splitSep cs of [] \<Rightarrow> [[c]] | s # ss \<Rightarrow> (c # s) # ss))"

definition segs :: "string \<Rightarrow> string list" where
  "segs p = filter (\<lambda>s. s \<noteq> []) (splitSep p)"

fun from_segs :: "string list \<Rightarrow> string" where
  "from_segs [] = ''/''"
| "from_segs [s] = CHR ''/'' # s"
| "from_segs (s # ss) = CHR ''/'' # s @ from_segs ss"

text \<open>
  \<open>normalizeString\<close> of Node, for an absolute path: \<open>.\<close> is skipped, \<open>..\<close> drops the
  segment before it, and at the root there is nothing to drop.
\<close>

fun normalizeString :: "string list \<Rightarrow> string list \<Rightarrow> string list" where
  "normalizeString acc [] = rev acc"
| "normalizeString acc (s # ss) =
     (if s = ''.'' then normalizeString acc ss
      else if s = ''..'' then normalizeString (case acc of [] \<Rightarrow> [] | _ # a \<Rightarrow> a) ss
      else normalizeString (s # acc) ss)"

definition isAbsolute :: "string \<Rightarrow> bool" where
  "isAbsolute p = (case p of [] \<Rightarrow> False | c # _ \<Rightarrow> c = CHR ''/'')"

text \<open>
  \<open>path.resolve(cwd, p)\<close>; \<open>path.resolve(p)\<close> is the same with the working directory of
  the process as \<open>cwd\<close>. An absolute \<open>p\<close> wins over \<open>cwd\<close>; the result is absolute and
  normalised, without a trailing separator.
\<close>

definition path_resolve :: "string \<Rightarrow> string \<Rightarrow> string" where
  "path_resolve cwd p =
     from_segs (normalizeString [] (segs (if isAbsolute p then p else cwd @ sep @ p)))"

text \<open>
  \<open>path.dirname\<close> and \<open>path.join\<close>, as they act on the resolved absolute paths that
  every call site of the three commands passes to them.
\<close>

definition path_dirname :: "string \<Rightarrow> string" where
  "path_dirname p = from_segs (butlast (segs p))"

definition path_join :: "string \<Rightarrow> string \<Rightarrow> string" where
  "path_join a b = from_segs (normalizeString [] (segs (a @ sep @ b)))"

text \<open>\<open>path.relative(from, to)\<close>: both ends are resolved, then the common prefix is cut.\<close>

fun relative_segs :: "string list \<Rightarrow> string list \<Rightarrow> string list" where
  "relative_segs (a # as) (b # bs) =
     (if a = b then relative_segs as bs else map (\<lambda>_. ''..'') (a # as) @ (b # bs))"
| "relative_segs as bs = map (\<lambda>_. ''..'') as @ bs"

fun join_segs :: "string list \<Rightarrow> string" where
  "join_segs [] = []"
| "join_segs [s] = s"
| "join_segs (s # ss) = s @ sep @ join_segs ss"

definition path_relative :: "string \<Rightarrow> string \<Rightarrow> string \<Rightarrow> string" where
  "path_relative cwd from to =
     join_segs (relative_segs (segs (path_resolve cwd from)) (segs (path_resolve cwd to)))"

text \<open>A segment of a path: not empty, and free of the separator.\<close>

definition seg_ok :: "string \<Rightarrow> bool" where
  "seg_ok s = (s \<noteq> [] \<and> CHR ''/'' \<notin> set s)"

text \<open>
  A fully resolved absolute path: the string is the canonical form of its own segments,
  none of which is \<open>.\<close> or \<open>..\<close>.
\<close>

definition resolved :: "string \<Rightarrow> bool" where
  "resolved p = (p = from_segs (segs p) \<and> ''.'' \<notin> set (segs p) \<and> ''..'' \<notin> set (segs p))"

definition startsWith :: "string \<Rightarrow> string \<Rightarrow> bool" where
  "startsWith s t = prefix t s"

definition endsWith :: "string \<Rightarrow> string \<Rightarrow> bool" where
  "endsWith s t = suffix t s"

section \<open>The filesystem\<close>

text \<open>
  The filesystem is a tree of plain files and directories. A directory carries two
  permission bits: whether its entries may be listed and whether entries may be added
  to or removed from it. Symbolic links, hard links and file contents are not modelled;
  none of the three commands reads them.
\<close>

datatype node =
  File
| Dir (readable: bool) (writable: bool) (entries: "(string \<times> node) list")

fun isDirectory :: "node \<Rightarrow> bool" where
  "isDirectory File = False"
| "isDirectory (Dir _ _ _) = True"

fun lookup :: "node \<Rightarrow> string list \<Rightarrow> node option" where
  "lookup n [] = Some n"
| "lookup File (s # ss) = None"
| "lookup (Dir r w es) (s # ss) =
     (case map_of es s of None \<Rightarrow> None | Some c \<Rightarrow> lookup c ss)"

fun update_at :: "string list \<Rightarrow> (node \<Rightarrow> node) \<Rightarrow> node \<Rightarrow> node" where
  "update_at [] f n = f n"
| "update_at (s # ss) f File = File"
| "update_at (s # ss) f (Dir r w es) =
     Dir r w (map (\<lambda>(k, c). if k = s then (k, update_at ss f c) else (k, c)) es)"

fun del_entry :: "string \<Rightarrow> node \<Rightarrow> node" where
  "del_entry name File = File"
| "del_entry name (Dir r w es) = Dir r w (filter (\<lambda>(k, c). k \<noteq> name) es)"

fun put_entry :: "string \<Rightarrow> node \<Rightarrow> node \<Rightarrow> node" where
  "put_entry name c File = File"
| "put_entry name c (Dir r w es) = Dir r w (filter (\<lambda>(k, c). k \<noteq> name) es @ [(name, c)])"

text \<open>
  The mutating system calls; the world keeps the tree and every mutating call made on
  it, whether the call succeeded or not. A system call walks the tree along the
  segments of its path; the paths that the commands pass are resolved, so that no
  segment is \<open>.\<close> or \<open>..\<close>.
\<close>

datatype syscall =
  Unlink string
| Rmdir string
| Mkdir string
| Rename string string

record world =
  tree :: node
  calls :: "syscall list"

datatype errno = ENOENT | ENOTDIR | EISDIR | EACCES | EPERM | ENOTEMPTY | EINVAL | EEXIST | EBUSY

datatype fs_error = FsError errno string string

fun errno_text :: "errno \<Rightarrow> string" where
  "errno_text ENOENT = ''ENOENT: no such file or directory''"
| "errno_text ENOTDIR = ''ENOTDIR: not a directory''"
| "errno_text EISDIR = ''EISDIR: illegal operation on a directory''"
| "errno_text EACCES = ''EACCES: permission denied''"
| "errno_text EPERM = ''EPERM: operation not permitted''"
| "errno_text ENOTEMPTY = ''ENOTEMPTY: directory not empty''"
| "errno_text EINVAL = ''EINVAL: invalid argument''"
| "errno_text EEXIST = ''EEXIST: file already exists''"
| "errno_text EBUSY = ''EBUSY: resource busy or locked''"

fun message :: "fs_error \<Rightarrow> string" where
  "message (FsError e call p) =
     errno_text e @ '', '' @ call @ '' '' @ [CHR 0x27] @ p @ [CHR 0x27]"

subsection \<open>Reading\<close>

definition existsSync :: "world \<Rightarrow> string \<Rightarrow> bool" where
  "existsSync w p = (lookup (tree w) (segs p) \<noteq> None)"

definition statSync :: "world \<Rightarrow> string \<Rightarrow> fs_error + node" where
  "statSync w p =
     (case lookup (tree w) (segs p) of
        None \<Rightarrow> Inl (FsError ENOENT ''stat'' p)
      | Some n \<Rightarrow> Inr n)"

definition readdirSync :: "world \<Rightarrow> string \<Rightarrow> fs_error + string list" where
  "readdirSync w p =
     (case lookup (tree w) (segs p) of
        None \<Rightarrow> Inl (FsError ENOENT ''scandir'' p)
      | Some File \<Rightarrow> Inl (FsError ENOTDIR ''scandir'' p)
      | Some (Dir r _ es) \<Rightarrow>
          if r then Inr (map fst es) else Inl (FsError EACCES ''scandir'' p))"

subsection \<open>Writing\<close>

definition parent_writable :: "node \<Rightarrow> string list \<Rightarrow> bool" where
  "parent_writable t ss =
     (case lookup t (butlast ss) of Some (Dir _ w _) \<Rightarrow> w | _ \<Rightarrow> False)"

definition remove_at :: "string list \<Rightarrow> node \<Rightarrow> node" where
  "remove_at ss t = update_at (butlast ss) (del_entry (last ss)) t"

definition called :: "syscall \<Rightarrow> world \<Rightarrow> world" where
  "called c w = w\<lparr>calls := calls w @ [c]\<rparr>"

definition unlinkSync :: "world \<Rightarrow> string \<Rightarrow> fs_error option \<times> world" where
  "unlinkSync w p =
     (let w' = called (Unlink p) w; ss = segs p in
      case lookup (tree w) ss of
        None \<Rightarrow> (Some (FsError ENOENT ''unlink'' p), w')
      | Some (Dir _ _ _) \<Rightarrow> (Some (FsError EISDIR ''unlink'' p), w')
      | Some File \<Rightarrow>
          if parent_writable (tree w) ss
          then (None, w'\<lparr>tree := remove_at ss (tree w)\<rparr>)
          else (Some (FsError EACCES ''unlink'' p), w'))"

definition rmdirSync :: "world \<Rightarrow> string \<Rightarrow> fs_error option \<times> world" where
  "rmdirSync w p =
     (let w' = called (Rmdir p) w; ss = segs p in
      case lookup (tree w) ss of
        None \<Rightarrow> (Some (FsError ENOENT ''rmdir'' p), w')
      | Some File \<Rightarrow> (Some (FsError ENOTDIR ''rmdir'' p), w')
      | Some (Dir _ _ es) \<Rightarrow>
          if ss = [] then (Some (FsError EBUSY ''rmdir'' p), w')
          else if es \<noteq> [] then (Some (FsError ENOTEMPTY ''rmdir'' p), w')
          else if parent_writable (tree w) ss
          then (None, w'\<lparr>tree := remove_at ss (tree w)\<rparr>)
          else (Some (FsError EACCES ''rmdir'' p), w'))"

text \<open>\<open>fs.mkdirSync(p, { recursive: true })\<close>: every missing directory on the way is made.\<close>

fun fresh_dirs :: "string list \<Rightarrow> node" where
  "fresh_dirs [] = Dir True True []"
| "fresh_dirs (s # ss) = Dir True True [(s, fresh_dirs ss)]"

fun mkdirp :: "string list \<Rightarrow> node \<Rightarrow> errno + node" where
  "mkdirp [] File = Inl EEXIST"
| "mkdirp [] (Dir r w es) = Inr (Dir r w es)"
| "mkdirp (s # ss) File = Inl ENOTDIR"
| "mkdirp (s # ss) (Dir r w es) =
     (case map_of es s of
        None \<Rightarrow> if w then Inr (Dir r w (es @ [(s, fresh_dirs ss)])) else Inl EACCES
      | Some c \<Rightarrow>
          (case mkdirp ss c of
             Inl e \<Rightarrow> Inl e
           | Inr c' \<Rightarrow> Inr (Dir r w (map (\<lambda>(k, d). if k = s then (k, c') else (k, d)) es))))"

definition mkdirSync :: "world \<Rightarrow> string \<Rightarrow> fs_error option \<times> world" where
  "mkdirSync w p =
     (let w' = called (Mkdir p) w in
      case mkdirp (segs p) (tree w) of
        Inl e \<Rightarrow> (Some (FsError e ''mkdir'' p), w')
      | Inr t \<Rightarrow> (None, w'\<lparr>tree := t\<rparr>))"

text \<open>
  \<open>fs.renameSync\<close>, after rename(2): a directory cannot be moved into itself, a file
  cannot replace a directory nor a directory a file, and only an empty directory can be
  replaced.
\<close>

definition renameSync :: "world \<Rightarrow> string \<Rightarrow> string \<Rightarrow> fs_error option \<times> world" where
  "renameSync w old new =
     (let w' = called (Rename old new) w; os = segs old; ns = segs new; t = tree w;
          fail = (\<lambda>e. (Some (FsError e ''rename'' old), w')) in
      case lookup t os of
        None \<Rightarrow> fail ENOENT
      | Some src \<Rightarrow>
          if os = [] \<or> ns = [] then fail EBUSY
          else if os = ns then (None, w')
          else if isDirectory src \<and> prefix os ns then fail EINVAL
          else (case lookup t (butlast ns) of
                  None \<Rightarrow> fail ENOENT
                | Some File \<Rightarrow> fail ENOTDIR
                | Some (Dir _ _ _) \<Rightarrow>
                    if \<not> parent_writable t os \<or> \<not> parent_writable t ns then fail EACCES
                    else (case lookup t ns of
                            None \<Rightarrow>
                              (None, w'\<lparr>tree := update_at (butlast ns) (put_entry (last ns) src)
                                                  (remove_at os t)\<rparr>)
                          | Some dst \<Rightarrow>
                              if isDirectory src \<and> \<not> isDirectory dst then fail ENOTDIR
                              else if \<not> isDirectory src \<and> isDirectory dst then fail EISDIR
                              else if isDirectory dst \<and> entries dst \<noteq> [] then fail ENOTEMPTY
                              else (None, w'\<lparr>tree := update_at (butlast ns)
                                                  (put_entry (last ns) src) (remove_at os t)\<rparr>))))"

section \<open>The two shared functions\<close>

text \<open>
  \<open>findWorkspaceRoot\<close> and \<open>isWithinWorkspace\<close> stand, word for word the same, at the top
  of each of the three scripts. A failing \<open>readdirSync\<close> throws; the exception is the
  \<open>Inl\<close> result.
\<close>

function findWorkspaceRoot_loop :: "world \<Rightarrow> string \<Rightarrow> fs_error + string option" where
  "findWorkspaceRoot_loop w currentPath =
     (if currentPath \<noteq> path_dirname currentPath then
        (let vscodeDir = path_join currentPath ''.vscode'';
             gitDir = path_join currentPath ''.git'';
             packageJson = path_join currentPath ''package.json''
         in case readdirSync w currentPath of
              Inl e \<Rightarrow> Inl e
            | Inr files \<Rightarrow>
                (let workspaceFile = find (\<lambda>file. endsWith file ''.code-workspace'') files
                 in if existsSync w vscodeDir \<or> existsSync w gitDir \<or>
                       existsSync w packageJson \<or> workspaceFile \<noteq> None
                    then Inr (Some currentPath)
                    else findWorkspaceRoot_loop w (path_dirname currentPath)))
      else Inr None)"
  by pat_completeness auto

definition findWorkspaceRoot :: "world \<Rightarrow> string \<Rightarrow> string \<Rightarrow> fs_error + string option" where
  "findWorkspaceRoot w cwd startPath = findWorkspaceRoot_loop w (path_resolve cwd startPath)"

definition isWithinWorkspace :: "string \<Rightarrow> string \<Rightarrow> string \<Rightarrow> bool" where
  "isWithinWorkspace cwd targetPath workspaceRoot =
     (let resolvedTarget = path_resolve cwd targetPath;
          resolvedWorkspace = path_resolve cwd workspaceRoot
      in startsWith resolvedTarget (resolvedWorkspace @ sep) \<or> resolvedTarget = resolvedWorkspace)"

section \<open>The process: arguments, output, exit code\<close>

text \<open>
  A run of a command starts from the working directory of the process and the
  filesystem, and ends with an exit code, the messages written (one per call of
  \<open>console.log\<close> or \<open>console.error\<close>, in order) and the filesystem it leaves.
  \<open>process.exit(c)\<close> ends the run with code \<open>c\<close>; a run that reaches the end of \<open>main\<close>
  ends with code 0; an exception nobody catches is reported by Node on the error stream
  and ends the run with code 1.
\<close>

record env =
  cwd :: string
  fs :: world

datatype stream = Stdout | Stderr

type_synonym msg = "stream \<times> string"

record outcome =
  exit_code :: nat
  printed :: "msg list"
  fs_after :: world

definition process_exit :: "nat \<Rightarrow> msg list \<Rightarrow> world \<Rightarrow> outcome" where
  "process_exit c out w = \<lparr>exit_code = c, printed = out, fs_after = w\<rparr>"

definition console_log :: "string \<Rightarrow> msg" where
  "console_log s = (Stdout, s)"

definition console_error :: "string \<Rightarrow> msg" where
  "console_error s = (Stderr, s)"

definition uncaught :: "fs_error \<Rightarrow> msg list" where
  "uncaught e = [console_error (''Uncaught Error: '' @ message e)]"

text \<open>The pictographs of the messages, as their UTF-8 bytes.\<close>

definition cross_mark :: string where
  "cross_mark = [CHR 0xE2, CHR 0x9D, CHR 0x8C]"

definition check_mark :: string where
  "check_mark = [CHR 0xE2, CHR 0x9C, CHR 0x85]"

definition file_folder :: string where
  "file_folder = [CHR 0xF0, CHR 0x9F, CHR 0x93, CHR 0x81]"

definition open_folder :: string where
  "open_folder = [CHR 0xF0, CHR 0x9F, CHR 0x93, CHR 0x82]"

definition house :: string where
  "house = [CHR 0xF0, CHR 0x9F, CHR 0x8F, CHR 0xA0]"

definition arrow :: string where
  "arrow = [CHR 0xE2, CHR 0x86, CHR 0x92]"

definition dividers :: string where
  "dividers = [CHR 0xF0, CHR 0x9F, CHR 0x97, CHR 0x82, CHR 0xEF, CHR 0xB8, CHR 0x8F]"

definition wastebasket :: string where
  "wastebasket = [CHR 0xF0, CHR 0x9F, CHR 0x97, CHR 0x91, CHR 0xEF, CHR 0xB8, CHR 0x8F]"

definition warning :: string where
  "warning = [CHR 0xE2, CHR 0x9A, CHR 0xA0, CHR 0xEF, CHR 0xB8, CHR 0x8F]"

definition root_not_found :: "msg list" where
  "root_not_found =
     [console_error (cross_mark @ '' Could not find workspace root''),
      console_error ''   (looked for .vscode/, .git/, package.json, *.code-workspace)'']"

definition show_root :: "string \<Rightarrow> msg list" where
  "show_root workspaceRoot = [console_log (file_folder @ '' Workspace root: '' @ workspaceRoot)]"

definition yes_no :: "bool \<Rightarrow> string" where
  "yes_no b = (if b then check_mark @ '' Yes'' else cross_mark @ '' No'')"

definition or_root :: "string \<Rightarrow> string" where
  "or_root s = (if s = [] then ''(root)'' else s)"

section \<open>cd-vs-local\<close>

definition cd_help :: "msg list" where
  "cd_help = map console_log
     [''Usage: cd-vs-local <directory>'',
      [],
      ''Change directory while staying within VS Code workspace bounds.'',
      [],
      ''This tool:'',
      ''  - Finds the workspace root (looks for .vscode/, .git/, package.json, *.code-workspace)'',
      ''  - Prevents cd outside of the workspace'',
      ''  - Shows the resolved path and workspace context'',
      [],
      ''Options:'',
      ''  --help, -h      Show this help message'',
      ''  --check         Just check if a path is within workspace (no cd)'',
      ''  --show-root     Show the detected workspace root'',
      [],
      ''Examples:'',
      ''  cd-vs-local ../other-project     # cd to sibling project if within workspace'',
      ''  cd-vs-local ../../               # Blocked if it would exit workspace'',
      ''  cd-vs-local --show-root          # Show workspace root'',
      ''  cd-vs-local --check ../path      # Check if path is within workspace'']"

definition cd_usage :: "msg list" where
  "cd_usage =
     [console_error (cross_mark @ '' Please provide a target directory''),
      console_error ''Usage: cd-vs-local <directory>'',
      console_error ''Use --help for more information'']"

definition cd_main :: "env \<Rightarrow> string list \<Rightarrow> outcome" where
  "cd_main env args =
     (let w = fs env in
      if ''--help'' \<in> set args \<or> ''-h'' \<in> set args then process_exit 0 cd_help w
      else
        let currentDir = cwd env in
        case findWorkspaceRoot w currentDir currentDir of
          Inl e \<Rightarrow> process_exit 1 (uncaught e) w
        | Inr None \<Rightarrow> process_exit 1 root_not_found w
        | Inr (Some workspaceRoot) \<Rightarrow>
            if workspaceRoot = [] then process_exit 1 root_not_found w
            else if ''--show-root'' \<in> set args then process_exit 0 (show_root workspaceRoot) w
            else
              (case find (\<lambda>arg. \<not> startsWith arg ''--'') args of
                 None \<Rightarrow> process_exit 1 cd_usage w
               | Some targetPath \<Rightarrow>
                   if targetPath = [] then process_exit 1 cd_usage w
                   else
                     let absoluteTargetPath = path_resolve currentDir targetPath in
                     if ''--check'' \<in> set args then
                       (let withinWorkspace =
                              isWithinWorkspace currentDir absoluteTargetPath workspaceRoot
                        in process_exit (if withinWorkspace then 0 else 1)
                             [console_log (''Path: '' @ absoluteTargetPath),
                              console_log (''Workspace: '' @ workspaceRoot),
                              console_log (''Within workspace: '' @ yes_no withinWorkspace)] w)
                     else if \<not> existsSync w absoluteTargetPath then
                       process_exit 1
                         [console_error (cross_mark @ '' Directory does not exist: '' @ absoluteTargetPath)] w
                     else
                       (case statSync w absoluteTargetPath of
                          Inl e \<Rightarrow> process_exit 1 (uncaught e) w
                        | Inr stats \<Rightarrow>
                            if \<not> isDirectory stats then
                              process_exit 1
                                [console_error (cross_mark @ '' Not a directory: '' @ absoluteTargetPath)] w
                            else if \<not> isWithinWorkspace currentDir absoluteTargetPath workspaceRoot
                            then
                              process_exit 1
                                [console_error (cross_mark @ '' Target directory is outside workspace bounds''),
                                 console_error (''   Target: '' @ absoluteTargetPath),
                                 console_error (''   Workspace: '' @ workspaceRoot),
                                 console_error ''   Use regular 'cd' if you need to go outside the workspace''] w
                            else
                              (let relativePath =
                                     path_relative currentDir currentDir absoluteTargetPath;
                                   relativeToWorkspace =
                                     path_relative currentDir workspaceRoot absoluteTargetPath
                               in process_exit 0
                                    [console_log (check_mark @ '' cd '' @ relativePath),
                                     console_log (file_folder @ '' '' @ absoluteTargetPath),
                                     console_log (house @ '' Workspace: '' @ or_root relativeToWorkspace),
                                     console_log (''CHANGE_DIR='' @ absoluteTargetPath)] w))))"

section \<open>mv-vs-local\<close>

definition mv_help :: "msg list" where
  "mv_help = map console_log
     [''Usage: mv-vs-local <source> <destination>'',
      [],
      ''Move/rename files while staying within VS Code workspace bounds.'',
      [],
      ''This tool:'',
      ''  - Finds the workspace root (looks for .vscode/, .git/, package.json, *.code-workspace)'',
      ''  - Prevents moving files outside of the workspace'',
      ''  - Shows the resolved paths and workspace context'',
      [],
      ''Options:'',
      ''  --help, -h      Show this help message'',
      ''  --check         Just check if paths are within workspace (no move)'',
      ''  --show-root     Show the detected workspace root'',
      [],
      ''Examples:'',
      ''  mv-vs-local old.txt new.txt                # Rename file'',
      ''  mv-vs-local src/file.js lib/file.js        # Move file within workspace'',
      ''  mv-vs-local temp/ archive/                 # Move directory'',
      ''  mv-vs-local --check src/file.js ../outside # Check if move would be allowed'']"

definition mv_usage :: "msg list" where
  "mv_usage =
     [console_error (cross_mark @ '' Please provide source and destination paths''),
      console_error ''Usage: mv-vs-local <source> <destination>'',
      console_error ''Use --help for more information'']"

definition mv_outside :: "string \<Rightarrow> string \<Rightarrow> string \<Rightarrow> msg list" where
  "mv_outside what p workspaceRoot =
     [console_error (cross_mark @ '' '' @ what @ '' is outside workspace bounds''),
      console_error (''   '' @ what @ '': '' @ p),
      console_error (''   Workspace: '' @ workspaceRoot),
      console_error ''   Use regular 'mv' if you need to work outside the workspace'']"

text \<open>
  The directory of the destination is made when it is missing; \<open>mkdirSync\<close> stands
  outside the \<open>try\<close> block, so its exception is not caught.
\<close>

definition make_destDir :: "world \<Rightarrow> string \<Rightarrow> fs_error option \<times> msg list \<times> world" where
  "make_destDir w destDir =
     (if \<not> existsSync w destDir then
        (case mkdirSync w destDir of
           (Some e, w') \<Rightarrow> (Some e, [], w')
         | (None, w') \<Rightarrow> (None, [console_log (file_folder @ '' Created directory: '' @ destDir)], w'))
      else (None, [], w))"

definition mv_main :: "env \<Rightarrow> string list \<Rightarrow> outcome" where
  "mv_main env args =
     (let w = fs env in
      if ''--help'' \<in> set args \<or> ''-h'' \<in> set args then process_exit 0 mv_help w
      else
        let currentDir = cwd env in
        case findWorkspaceRoot w currentDir currentDir of
          Inl e \<Rightarrow> process_exit 1 (uncaught e) w
        | Inr None \<Rightarrow> process_exit 1 root_not_found w
        | Inr (Some workspaceRoot) \<Rightarrow>
            if workspaceRoot = [] then process_exit 1 root_not_found w
            else if ''--show-root'' \<in> set args then process_exit 0 (show_root workspaceRoot) w
            else
              (case filter (\<lambda>arg. \<not> startsWith arg ''--'') args of
                 [sourcePath, destPath] \<Rightarrow>
                   let absoluteSourcePath = path_resolve currentDir sourcePath;
                       absoluteDestPath = path_resolve currentDir destPath
                   in
                   if ''--check'' \<in> set args then
                     (let sourceWithinWorkspace =
                            isWithinWorkspace currentDir absoluteSourcePath workspaceRoot;
                          destWithinWorkspace =
                            isWithinWorkspace currentDir absoluteDestPath workspaceRoot
                      in process_exit (if sourceWithinWorkspace \<and> destWithinWorkspace then 0 else 1)
                           [console_log (''Source: '' @ absoluteSourcePath),
                            console_log (''Destination: '' @ absoluteDestPath),
                            console_log (''Workspace: '' @ workspaceRoot),
                            console_log (''Source within workspace: '' @ yes_no sourceWithinWorkspace),
                            console_log (''Destination within workspace: '' @ yes_no destWithinWorkspace)] w)
                   else if \<not> existsSync w absoluteSourcePath then
                     process_exit 1
                       [console_error (cross_mark @ '' Source does not exist: '' @ absoluteSourcePath)] w
                   else if \<not> isWithinWorkspace currentDir absoluteSourcePath workspaceRoot then
                     process_exit 1 (mv_outside ''Source'' absoluteSourcePath workspaceRoot) w
                   else if \<not> isWithinWorkspace currentDir absoluteDestPath workspaceRoot then
                     process_exit 1 (mv_outside ''Destination'' absoluteDestPath workspaceRoot) w
                   else
                     (case make_destDir w (path_dirname absoluteDestPath) of
                        (Some e, created, w1) \<Rightarrow> process_exit 1 (uncaught e) w1
                      | (None, created, w1) \<Rightarrow>
                          (case renameSync w1 absoluteSourcePath absoluteDestPath of
                             (Some error, w2) \<Rightarrow>
                               process_exit 1
                                 (created @ [console_error (cross_mark @ '' Failed to move: '' @ message error)])
                                 w2
                           | (None, w2) \<Rightarrow>
                               (let relativeSource =
                                      path_relative currentDir currentDir absoluteSourcePath;
                                    relativeDest =
                                      path_relative currentDir currentDir absoluteDestPath;
                                    relativeSourceToWorkspace =
                                      path_relative currentDir workspaceRoot absoluteSourcePath;
                                    relativeDestToWorkspace =
                                      path_relative currentDir workspaceRoot absoluteDestPath
                                in process_exit 0
                                     (created @
                                      [console_log (check_mark @ '' mv '' @ relativeSource @ '' '' @ arrow @
                                            '' '' @ relativeDest),
                                       console_log (open_folder @ '' '' @ absoluteSourcePath @ '' '' @ arrow @
                                            '' '' @ absoluteDestPath),
                                       console_log (house @ '' Workspace: '' @
                                            or_root relativeSourceToWorkspace @ '' '' @ arrow @
                                            '' '' @ or_root relativeDestToWorkspace)])
                                     w2)))
               | _ \<Rightarrow> process_exit 1 mv_usage w))"

section \<open>rm-vs-local\<close>

text \<open>
  \<open>removeRecursively\<close> calls itself on every entry of a directory, on the filesystem as
  the calls before left it. The first argument bounds the depth of the calls; \<open>None\<close>
  is a run that the bound cut short. An exception (the \<open>Some e\<close> of a result) ends the
  loop and the call, and leaves the filesystem as it was when the exception was thrown.
\<close>

fun forEach ::
  "('a \<Rightarrow> world \<Rightarrow> (fs_error option \<times> world) option) \<Rightarrow> 'a list \<Rightarrow> world \<Rightarrow>
   (fs_error option \<times> world) option" where
  "forEach body [] w = Some (None, w)"
| "forEach body (x # xs) w =
     (case body x w of
        None \<Rightarrow> None
      | Some (Some e, w') \<Rightarrow> Some (Some e, w')
      | Some (None, w') \<Rightarrow> forEach body xs w')"

primrec removeRecursively :: "nat \<Rightarrow> string \<Rightarrow> world \<Rightarrow> (fs_error option \<times> world) option" where
  "removeRecursively 0 targetPath w = None"
| "removeRecursively (Suc depth) targetPath w =
     (case statSync w targetPath of
        Inl e \<Rightarrow> Some (Some e, w)
      | Inr stats \<Rightarrow>
          if isDirectory stats then
            (case readdirSync w targetPath of
               Inl e \<Rightarrow> Some (Some e, w)
             | Inr files \<Rightarrow>
                 (case forEach (\<lambda>file. removeRecursively depth (path_join targetPath file)) files w of
                    None \<Rightarrow> None
                  | Some (Some e, w') \<Rightarrow> Some (Some e, w')
                  | Some (None, w') \<Rightarrow> Some (rmdirSync w' targetPath)))
          else Some (unlinkSync w targetPath))"

text \<open>Decimal numerals and \<open>Array.join\<close>, for the closing report.\<close>

function show_nat :: "nat \<Rightarrow> string" where
  "show_nat n =
     (if n < 10 then [''0123456789'' ! n]
      else show_nat (n div 10) @ [''0123456789'' ! (n mod 10)])"
  by pat_completeness auto
termination
  by (relation "measure id") auto

fun join_with :: "string \<Rightarrow> string list \<Rightarrow> string" where
  "join_with d [] = []"
| "join_with d [s] = s"
| "join_with d (s # ss) = s @ d @ join_with d ss"

definition rm_help :: "msg list" where
  "rm_help = map console_log
     [''Usage: rm-vs-local [options] <file1> [file2] ...'',
      [],
      ''Remove files while staying within VS Code workspace bounds.'',
      [],
      ''This tool:'',
      ''  - Finds the workspace root (looks for .vscode/, .git/, package.json, *.code-workspace)'',
      ''  - Prevents removing files outside of the workspace'',
      ''  - Shows the resolved paths and workspace context'',
      [],
      ''Options:'',
      ''  --help, -h      Show this help message'',
      ''  --check         Just check if paths are within workspace (no removal)'',
      ''  --show-root     Show the detected workspace root'',
      ''  --recursive, -r Remove directories recursively'',
      ''  --force, -f     Force removal without confirmation'',
      [],
      ''Examples:'',
      ''  rm-vs-local temp.txt                      # Remove file'',
      ''  rm-vs-local file1.txt file2.txt          # Remove multiple files'',
      ''  rm-vs-local --recursive temp/             # Remove directory recursively'',
      ''  rm-vs-local --check ../outside-file.txt  # Check if removal would be allowed'']"

definition rm_usage :: "msg list" where
  "rm_usage =
     [console_error (cross_mark @ '' Please provide at least one file or directory to remove''),
      console_error ''Usage: rm-vs-local [options] <file1> [file2] ...'',
      console_error ''Use --help for more information'']"

record pathInfo =
  original :: string
  absolute :: string
  relative :: string

definition resolvePath :: "string \<Rightarrow> string \<Rightarrow> pathInfo" where
  "resolvePath currentDir p =
     (let absolute = path_resolve currentDir p
      in \<lparr>original = p, absolute = absolute,
          relative = path_relative currentDir currentDir absolute\<rparr>)"

definition check_line :: "string \<Rightarrow> string \<Rightarrow> pathInfo \<Rightarrow> msg" where
  "check_line currentDir workspaceRoot pathInfo =
     (let withinWorkspace = isWithinWorkspace currentDir (absolute pathInfo) workspaceRoot
      in console_log (absolute pathInfo @ '': '' @
           (if withinWorkspace then check_mark @ '' Within workspace''
            else cross_mark @ '' Outside workspace'')))"

text \<open>
  The validation loop: the messages of the first target that fails, and \<open>None\<close> when
  every target passes.
\<close>

fun validate :: "world \<Rightarrow> string \<Rightarrow> string \<Rightarrow> bool \<Rightarrow> pathInfo list \<Rightarrow> msg list option" where
  "validate w currentDir workspaceRoot isRecursive [] = None"
| "validate w currentDir workspaceRoot isRecursive (pathInfo # rest) =
     (if \<not> isWithinWorkspace currentDir (absolute pathInfo) workspaceRoot then
        Some [console_error (cross_mark @ '' Target is outside workspace bounds''),
              console_error (''   Target: '' @ absolute pathInfo),
              console_error (''   Workspace: '' @ workspaceRoot),
              console_error ''   Use regular 'rm' if you need to work outside the workspace'']
      else if \<not> existsSync w (absolute pathInfo) then
        Some [console_error (cross_mark @ '' File does not exist: '' @ absolute pathInfo)]
      else
        (case statSync w (absolute pathInfo) of
           Inl e \<Rightarrow> Some (uncaught e)
         | Inr stats \<Rightarrow>
             if isDirectory stats \<and> \<not> isRecursive then
               Some [console_error (cross_mark @ '' '' @ absolute pathInfo @ '' is a directory''),
                     console_error ''   Use --recursive to remove directories'']
             else validate w currentDir workspaceRoot isRecursive rest))"

text \<open>The list of what will be removed; a failing \<open>statSync\<close> ends it.\<close>

fun will_remove :: "world \<Rightarrow> string \<Rightarrow> string \<Rightarrow> pathInfo list \<Rightarrow> msg list \<times> fs_error option" where
  "will_remove w currentDir workspaceRoot [] = ([], None)"
| "will_remove w currentDir workspaceRoot (pathInfo # rest) =
     (case statSync w (absolute pathInfo) of
        Inl e \<Rightarrow> ([], Some e)
      | Inr stats \<Rightarrow>
          (let type = (if isDirectory stats then ''directory'' else ''file'');
               relativeToWorkspace = path_relative currentDir workspaceRoot (absolute pathInfo);
               line = console_log (''  '' @ type @ '': '' @ relative pathInfo @ '' (workspace: '' @
                        or_root relativeToWorkspace @ '')'');
               (lines, thrown) = will_remove w currentDir workspaceRoot rest
           in (line # lines, thrown)))"

text \<open>
  One round of the removal loop: the \<open>try\<close> block removes the target and counts it, the
  \<open>catch\<close> block reports the exception and goes on.
\<close>

definition failed_to_remove :: "pathInfo \<Rightarrow> fs_error \<Rightarrow> msg" where
  "failed_to_remove pathInfo error =
     console_error (cross_mark @ '' Failed to remove '' @ relative pathInfo @ '': '' @ message error)"

definition remove_one :: "nat \<Rightarrow> pathInfo \<Rightarrow> world \<Rightarrow> (world \<times> msg list \<times> nat) option" where
  "remove_one depth pathInfo w =
     (case statSync w (absolute pathInfo) of
        Inl error \<Rightarrow> Some (w, [failed_to_remove pathInfo error], 0)
      | Inr stats \<Rightarrow>
          if isDirectory stats then
            (case removeRecursively depth (absolute pathInfo) w of
               None \<Rightarrow> None
             | Some (Some error, w') \<Rightarrow> Some (w', [failed_to_remove pathInfo error], 0)
             | Some (None, w') \<Rightarrow>
                 Some (w', [console_log (dividers @ ''  Removed directory: '' @ relative pathInfo)], 1))
          else
            (case unlinkSync w (absolute pathInfo) of
               (Some error, w') \<Rightarrow> (Some (w', [failed_to_remove pathInfo error], 0))
             | (None, w') \<Rightarrow>
                 Some (w', [console_log (wastebasket @ ''  Removed file: '' @ relative pathInfo)], 1)))"

fun remove_all :: "nat \<Rightarrow> pathInfo list \<Rightarrow> world \<Rightarrow> (world \<times> msg list \<times> nat) option" where
  "remove_all depth [] w = Some (w, [], 0)"
| "remove_all depth (pathInfo # rest) w =
     (case remove_one depth pathInfo w of
        None \<Rightarrow> None
      | Some (w', out, n) \<Rightarrow>
          (case remove_all depth rest w' of
             None \<Rightarrow> None
           | Some (w'', out', n') \<Rightarrow> Some (w'', out @ out', n + n')))"

definition rm_main :: "nat \<Rightarrow> env \<Rightarrow> string list \<Rightarrow> outcome option" where
  "rm_main depth env args =
     (let w = fs env in
      if ''--help'' \<in> set args \<or> ''-h'' \<in> set args then Some (process_exit 0 rm_help w)
      else
        let currentDir = cwd env in
        case findWorkspaceRoot w currentDir currentDir of
          Inl e \<Rightarrow> Some (process_exit 1 (uncaught e) w)
        | Inr None \<Rightarrow> Some (process_exit 1 root_not_found w)
        | Inr (Some workspaceRoot) \<Rightarrow>
            if workspaceRoot = [] then Some (process_exit 1 root_not_found w)
            else if ''--show-root'' \<in> set args then Some (process_exit 0 (show_root workspaceRoot) w)
            else
              let isRecursive = (''--recursive'' \<in> set args \<or> ''-r'' \<in> set args);
                  isForce = (''--force'' \<in> set args \<or> ''-f'' \<in> set args);
                  isCheck = (''--check'' \<in> set args);
                  targetPaths =
                    filter (\<lambda>arg. \<not> startsWith arg ''--'' \<and> arg \<noteq> ''-r'' \<and> arg \<noteq> ''-f'') args
              in
              if length targetPaths = 0 then Some (process_exit 1 rm_usage w)
              else
                let resolvedPaths = map (resolvePath currentDir) targetPaths in
                if isCheck then
                  (let allWithin =
                         list_all (\<lambda>p. isWithinWorkspace currentDir (absolute p) workspaceRoot)
                           resolvedPaths
                   in Some (process_exit (if allWithin then 0 else 1)
                        (console_log (''Workspace: '' @ workspaceRoot) #
                         map (check_line currentDir workspaceRoot) resolvedPaths) w))
                else
                  (case validate w currentDir workspaceRoot isRecursive resolvedPaths of
                     Some out \<Rightarrow> Some (process_exit 1 out w)
                   | None \<Rightarrow>
                       (let (shown, thrown) =
                              (if \<not> isForce \<and> length resolvedPaths > 0 then
                                 (case will_remove w currentDir workspaceRoot resolvedPaths of
                                    (lines, Some e) \<Rightarrow>
                                      (console_log ''Will remove:'' # lines, Some e)
                                  | (lines, None) \<Rightarrow>
                                      (console_log ''Will remove:'' # lines @
                                       [console_log (warning @
                                          ''  Proceeding with removal (use --force to skip this message)'')],
                                       None))
                               else ([], None))
                        in case thrown of
                             Some e \<Rightarrow> Some (process_exit 1 (shown @ uncaught e) w)
                           | None \<Rightarrow>
                               (case remove_all depth resolvedPaths w of
                                  None \<Rightarrow> None
                                | Some (w', out, removedCount) \<Rightarrow>
                                    Some (process_exit 0
                                      (shown @ out @
                                       (if removedCount > 0 then
                                          [console_log (check_mark @ '' Removed '' @
                                             show_nat removedCount @ '' item(s)''),
                                           console_log (house @ '' Workspace: '' @
                                             join_with '', ''
                                               (map (\<lambda>p. or_root (path_relative currentDir
                                                  workspaceRoot (absolute p))) resolvedPaths))]
                                        else []))
                                      w')))))"

section \<open>Notions of the specification\<close>

text \<open>
  The ancestors of a resolved path, nearest first: the path itself, its parent, and so
  on up to the filesystem root. \<open>examined\<close> leaves the filesystem root out.
\<close>

definition ancestors :: "string \<Rightarrow> string list" where
  "ancestors p = map from_segs (rev (prefixes (segs p)))"

definition examined :: "string \<Rightarrow> string list" where
  "examined p = map from_segs (rev (tl (prefixes (segs p))))"

text \<open>
  A directory contains a marker when one of its entries, of whatever type, is named
  \<open>.vscode\<close>, \<open>.git\<close> or \<open>package.json\<close>, or has a name that ends with
  \<open>.code-workspace\<close>.
\<close>

definition is_marker :: "string \<Rightarrow> bool" where
  "is_marker name =
     (name = ''.vscode'' \<or> name = ''.git'' \<or> name = ''package.json'' \<or>
      endsWith name ''.code-workspace'')"

definition contains_marker :: "world \<Rightarrow> string \<Rightarrow> bool" where
  "contains_marker w dir =
     (case lookup (tree w) (segs dir) of
        Some (Dir _ _ es) \<Rightarrow> list_ex (\<lambda>(name, n). is_marker name) es
      | _ \<Rightarrow> False)"

text \<open>
  The markers in the words of the specification: a directory named \<open>.vscode\<close>, a
  directory named \<open>.git\<close>, a file named \<open>package.json\<close>, or a file whose name ends with
  \<open>.code-workspace\<close>.
\<close>

definition claimed_marker :: "world \<Rightarrow> string \<Rightarrow> bool" where
  "claimed_marker w dir =
     (case lookup (tree w) (segs dir) of
        Some (Dir _ _ es) \<Rightarrow>
          list_ex (\<lambda>(name, n).
            (name = ''.vscode'' \<and> isDirectory n) \<or> (name = ''.git'' \<and> isDirectory n) \<or>
            (name = ''package.json'' \<and> \<not> isDirectory n) \<or>
            (endsWith name ''.code-workspace'' \<and> \<not> isDirectory n)) es
      | _ \<Rightarrow> False)"

text \<open>
  The upward walk over a list of directories, nearest first: a directory that cannot be
  listed ends the walk with the error, a directory with a marker ends it with that
  directory.
\<close>

fun scan :: "world \<Rightarrow> string list \<Rightarrow> fs_error + string option" where
  "scan w [] = Inr None"
| "scan w (a # as) =
     (case readdirSync w a of
        Inl e \<Rightarrow> Inl e
      | Inr _ \<Rightarrow> if contains_marker w a then Inr (Some a) else scan w as)"

text \<open>
  The directories that the walk comes to when every listing succeeds: the directories
  of the list, nearest first, up to and including the first that contains a marker,
  and all of them when none does.
\<close>

fun visited :: "world \<Rightarrow> string list \<Rightarrow> string list" where
  "visited w [] = []"
| "visited w (a # as) = (if contains_marker w a then [a] else a # visited w as)"

section \<open>Example filesystems\<close>

text \<open>A \<open>package.json\<close> directly under the filesystem root, beside an empty \<open>/home\<close>.\<close>

definition fs_marker_at_root :: world where
  "fs_marker_at_root =
     \<lparr>tree = Dir True True [(''package.json'', File), (''home'', Dir True True [])],
      calls = []\<rparr>"

text \<open>
  A repository \<open>/w\<close> with its \<open>.git\<close> directory, and a submodule \<open>/w/sub\<close> whose \<open>.git\<close> is
  a plain file.
\<close>

definition fs_git_file :: world where
  "fs_git_file =
     \<lparr>tree = Dir True True
        [(''w'', Dir True True
           [(''.git'', Dir True True []),
            (''sub'', Dir True True [(''.git'', File)])])],
      calls = []\<rparr>"

text \<open>A repository \<open>/locked\<close> whose entries cannot be listed, with a directory \<open>sub\<close> in it.\<close>

definition fs_locked :: world where
  "fs_locked =
     \<lparr>tree = Dir True True
        [(''locked'', Dir False True
           [(''.git'', Dir True True []),
            (''sub'', Dir True True [])])],
      calls = []\<rparr>"

text \<open>
  A workspace \<open>/w\<close> (it holds \<open>package.json\<close>) with a file \<open>a.txt\<close>, a directory \<open>src\<close> that
  holds \<open>main.js\<close> and \<open>lib/util.js\<close>, and a directory \<open>/other\<close> outside the workspace.
\<close>

definition fs_workspace :: world where
  "fs_workspace =
     \<lparr>tree = Dir True True
        [(''w'', Dir True True
           [(''package.json'', File),
            (''a.txt'', File),
            (''src'', Dir True True
               [(''main.js'', File),
                (''lib'', Dir True True [(''util.js'', File)])])]),
         (''other'', Dir True True [(''b.txt'', File)])],
      calls = []\<rparr>"

text \<open>The same workspace, with \<open>/w\<close> closed to the removal and creation of entries.\<close>

definition fs_readonly :: world where
  "fs_readonly =
     \<lparr>tree = Dir True True
        [(''w'', Dir True False [(''package.json'', File), (''a.txt'', File)])],
      calls = []\<rparr>"

text \<open>
  A workspace \<open>/locked/ws\<close> (it holds \<open>.git\<close>) with a directory \<open>src\<close>, below a directory
  \<open>/locked\<close> whose entries cannot be listed.
\<close>

definition fs_locked_above :: world where
  "fs_locked_above =
     \<lparr>tree = Dir True True
        [(''locked'', Dir False True
           [(''ws'', Dir True True
              [(''.git'', Dir True True []),
               (''src'', Dir True True [])])])],
      calls = []\<rparr>"

text \<open>
  Two names with a newline character in them, each followed by the marker token of the
  hand-off line: a target that does not exist, and the name of a directory of the
  workspace \<open>/w\<close>.
\<close>

definition crafted_target :: string where
  "crafted_target = ''nope'' @ [CHR 0x0A] @ ''CHANGE_DIR=/etc''"

definition crafted_name :: string where
  "crafted_name = ''x'' @ [CHR 0x0A] @ ''CHANGE_DIR=y''"

definition fs_crafted :: world where
  "fs_crafted =
     \<lparr>tree = Dir True True
        [(''w'', Dir True True
           [(''package.json'', File),
            (crafted_name, Dir True True [])])],
      calls = []\<rparr>"

section \<open>Notions of the commands\<close>

text \<open>
  \<open>console.log\<close> and \<open>console.error\<close> write their message and a newline character to
  their stream. The lines of a message are the pieces between its newline characters, so
  that a message with \<open>n\<close> newline characters in it makes \<open>n + 1\<close> lines of output. The
  lines of an output are the lines of its messages, in order, each with its stream.
\<close>

definition newline_free :: "string \<Rightarrow> bool" where
  "newline_free s = (CHR 0x0A \<notin> set s)"

fun lines_of :: "string \<Rightarrow> string list" where
  "lines_of [] = [[]]"
| "lines_of (c # cs) =
     (if c = CHR 0x0A then [] # lines_of cs
      else (case lines_of cs of [] \<Rightarrow> [[c]] | l # ls \<Rightarrow> (c # l) # ls))"

definition output_lines :: "msg list \<Rightarrow> msg list" where
  "output_lines out = concat (map (\<lambda>m. map (Pair (fst m)) (lines_of (snd m))) out)"

text \<open>The hand-off lines of an output: its lines that begin with the marker token.\<close>

definition change_dir_lines :: "msg list \<Rightarrow> msg list" where
  "change_dir_lines out = filter (\<lambda>l. startsWith (snd l) ''CHANGE_DIR='') (output_lines out)"

text \<open>
  An invocation of the change-directory command in which neither the working directory
  nor the target (the first argument that does not begin with \<open>--\<close>, if there is one)
  holds a newline character.
\<close>

definition plain_invocation :: "env \<Rightarrow> string list \<Rightarrow> bool" where
  "plain_invocation env args =
     (newline_free (cwd env) \<and>
      (case find (\<lambda>arg. \<not> startsWith arg ''--'') args of
         None \<Rightarrow> True
       | Some T \<Rightarrow> newline_free T))"

text \<open>
  Two auxiliary notions: the messages that begin with the marker token, and an outcome
  none of whose messages holds a newline character. In such an outcome every message is
  one line, and the hand-off lines are the messages that begin with the marker token.
\<close>

definition hand_off_messages :: "msg list \<Rightarrow> msg list" where
  "hand_off_messages out = filter (\<lambda>m. startsWith (snd m) ''CHANGE_DIR='') out"

definition plain :: "outcome \<Rightarrow> bool" where
  "plain r = list_all (\<lambda>m. newline_free (snd m)) (printed r)"

definition is_dir :: "world \<Rightarrow> string \<Rightarrow> bool" where
  "is_dir w p = (case lookup (tree w) (segs p) of Some n \<Rightarrow> isDirectory n | None \<Rightarrow> False)"

text \<open>
  What the remove command asks of a resolved target: it is inside the workspace, it
  exists, and it is not a directory unless the recursive flag is given.
\<close>

definition valid_target :: "world \<Rightarrow> string \<Rightarrow> string \<Rightarrow> bool \<Rightarrow> string \<Rightarrow> bool" where
  "valid_target w currentDir workspaceRoot isRecursive p =
     (isWithinWorkspace currentDir p workspaceRoot \<and> existsSync w p \<and>
      \<not> (is_dir w p \<and> \<not> isRecursive))"

text \<open>The arguments that a command reads as paths.\<close>

definition nonFlagArgs :: "string list \<Rightarrow> string list" where
  "nonFlagArgs args = filter (\<lambda>arg. \<not> startsWith arg ''--'') args"

definition targetPaths :: "string list \<Rightarrow> string list" where
  "targetPaths args =
     filter (\<lambda>arg. \<not> startsWith arg ''--'' \<and> arg \<noteq> ''-r'' \<and> arg \<noteq> ''-f'') args"

text \<open>
  The run is in the mode that performs the operation of the command: none of the flags
  that end it earlier (\<open>--help\<close>, \<open>-h\<close>, \<open>--show-root\<close>, \<open>--check\<close>) is given.
\<close>

definition operating :: "string list \<Rightarrow> bool" where
  "operating args =
     (''--help'' \<notin> set args \<and> ''-h'' \<notin> set args \<and> ''--show-root'' \<notin> set args \<and>
      ''--check'' \<notin> set args)"

text \<open>
  Two properties of the outcome of a run: a failed run prints no message that begins
  with the marker token, and a successful run prints exactly the given one.
\<close>

definition silent_failure :: "outcome \<Rightarrow> bool" where
  "silent_failure r = (exit_code r = 0 \<or> hand_off_messages (printed r) = [])"

definition hands_off :: "msg \<Rightarrow> outcome \<Rightarrow> bool" where
  "hands_off line r = (exit_code r \<noteq> 0 \<or> hand_off_messages (printed r) = [line])"

text \<open>
  The name of a directory entry: a path segment other than \<open>.\<close> and \<open>..\<close>.
\<close>

definition valid_name :: "string \<Rightarrow> bool" where
  "valid_name s = (seg_ok s \<and> s \<noteq> ''.'' \<and> s \<noteq> ''..'')"

text \<open>
  A tree that a recursive removal of the given depth can take away: its directories
  can be listed and changed, the entries of a directory have valid and distinct names,
  and the nesting of directories is less than the depth.
\<close>

fun removable :: "nat \<Rightarrow> node \<Rightarrow> bool" where
  "removable 0 n = False"
| "removable (Suc d) File = True"
| "removable (Suc d) (Dir r w es) =
     (r \<and> w \<and> distinct (map fst es) \<and> (\<forall>e \<in> set es. valid_name (fst e) \<and> removable d (snd e)))"

text \<open>
  The calls of a depth-first removal of a tree that stands at the path \<open>p\<close>: the calls
  for every entry of a directory, in the order of the entries, and then the call that
  removes the directory itself.
\<close>

fun postorder :: "string \<Rightarrow> node \<Rightarrow> syscall list"
  and postorder_entries :: "string \<Rightarrow> (string \<times> node) list \<Rightarrow> syscall list" where
  "postorder p File = [Unlink p]"
| "postorder p (Dir r w es) = postorder_entries p es @ [Rmdir p]"
| "postorder_entries p [] = []"
| "postorder_entries p (e # es) = postorder (path_join p (fst e)) (snd e) @ postorder_entries p es"

text \<open>
  A tree that a recursive removal can take away, whatever its depth: directories that
  can be listed and changed, entries with valid and distinct names.
\<close>

fun removable_tree :: "node \<Rightarrow> bool" where
  "removable_tree File = True"
| "removable_tree (Dir r w es) =
     (r \<and> w \<and> distinct (map fst es) \<and> (\<forall>e \<in> set es. valid_name (fst e) \<and> removable_tree (snd e)))"

section \<open>Facts about paths\<close>

lemma splitSep_not_Nil: "splitSep p \<noteq> []"
  by (induction p) (auto split: list.splits)

lemma splitSep_no_sep: "s \<in> set (splitSep p) \<Longrightarrow> CHR ''/'' \<notin> set s"
  by (induction p arbitrary: s) (auto split: list.splits if_splits)

lemma splitSep_plain: "CHR ''/'' \<notin> set s \<Longrightarrow> splitSep s = [s]"
  by (induction s) auto

lemma splitSep_field: "CHR ''/'' \<notin> set s \<Longrightarrow> splitSep (s @ CHR ''/'' # r) = s # splitSep r"
  by (induction s) auto

lemma splitSep_append: "splitSep (a @ CHR ''/'' # b) = splitSep a @ splitSep b"
proof (induction a)
  case Nil
  then show ?case by simp
next
  case (Cons c cs)
  then show ?case
    using splitSep_not_Nil [of cs] by (cases "splitSep cs") auto
qed

lemma segs_append: "segs (a @ sep @ b) = segs a @ segs b"
  by (simp add: segs_def sep_def splitSep_append)

lemma segs_ok: "s \<in> set (segs p) \<Longrightarrow> seg_ok s"
  by (auto simp: segs_def seg_ok_def splitSep_no_sep)

lemma segs_root: "segs ''/'' = []"
  by (simp add: segs_def)

lemma from_segs_head: "\<exists>r. from_segs ss = CHR ''/'' # r"
  by (cases ss rule: from_segs.cases) auto

lemma isAbsolute_from_segs: "isAbsolute (from_segs ss)"
  using from_segs_head [of ss] by (auto simp: isAbsolute_def)

lemma segs_from_segs: "\<forall>s \<in> set ss. seg_ok s \<Longrightarrow> segs (from_segs ss) = ss"
proof (induction ss rule: from_segs.induct)
  case 1
  then show ?case by (simp add: segs_def)
next
  case (2 s)
  then show ?case by (simp add: segs_def seg_ok_def splitSep_plain)
next
  case (3 s t ts)
  obtain r where r: "from_segs (t # ts) = CHR ''/'' # r"
    using from_segs_head by blast
  have "splitSep (s @ from_segs (t # ts)) = s # splitSep r"
    using 3 by (simp add: r splitSep_field seg_ok_def)
  moreover have "segs (from_segs (t # ts)) = t # ts"
    using 3 by simp
  ultimately show ?case using 3
    by (simp add: segs_def seg_ok_def r)
qed

lemma from_segs_snoc: "ss \<noteq> [] \<Longrightarrow> from_segs (ss @ [x]) = from_segs ss @ CHR ''/'' # x"
  by (induction ss rule: from_segs.induct) auto

lemma from_segs_extend: "from_segs (ss @ [x]) @ s = from_segs (ss @ [x @ s])"
  by (induction ss rule: from_segs.induct) auto

lemma length_from_segs_butlast: "ss \<noteq> [] \<Longrightarrow> length (from_segs (butlast ss)) \<le> length (from_segs ss)"
  by (induction ss rule: from_segs.induct) auto

lemma segs_dirname: "segs (path_dirname p) = butlast (segs p)"
  unfolding path_dirname_def
  by (rule segs_from_segs) (auto dest: in_set_butlastD segs_ok)

lemma normalizeString_plain:
  "''.'' \<notin> set ss \<Longrightarrow> ''..'' \<notin> set ss \<Longrightarrow> normalizeString acc ss = rev acc @ ss"
  by (induction ss arbitrary: acc) auto

lemma normalizeString_keeps:
  assumes "\<forall>s \<in> set acc. P s" "\<forall>s \<in> set ss. s \<noteq> ''.'' \<longrightarrow> s \<noteq> ''..'' \<longrightarrow> P s"
  shows "\<forall>s \<in> set (normalizeString acc ss). P s"
  using assms
proof (induction ss arbitrary: acc)
  case Nil
  then show ?case by simp
next
  case (Cons a ss)
  have tl: "\<forall>s \<in> set (case acc of [] \<Rightarrow> [] | _ # b \<Rightarrow> b). P s"
    using Cons.prems(1) by (cases acc) simp_all
  have rest: "\<forall>s \<in> set ss. s \<noteq> ''.'' \<longrightarrow> s \<noteq> ''..'' \<longrightarrow> P s"
    using Cons.prems(2) by simp
  show ?case
  proof (cases "a = ''.''")
    case True
    then show ?thesis using Cons.IH [OF Cons.prems(1) rest] by simp
  next
    case False
    note nd = this
    show ?thesis
    proof (cases "a = ''..''")
      case True
      then show ?thesis using Cons.IH [OF tl rest] by simp
    next
      case False
      have "\<forall>s \<in> set (a # acc). P s"
        using Cons.prems nd False by simp
      from Cons.IH [OF this rest] show ?thesis using nd False by simp
    qed
  qed
qed

lemma resolved_from_segs:
  "\<forall>s \<in> set ss. seg_ok s \<Longrightarrow> ''.'' \<notin> set ss \<Longrightarrow> ''..'' \<notin> set ss \<Longrightarrow> resolved (from_segs ss)"
  by (simp add: resolved_def segs_from_segs)

lemma normalizeString_segs_ok:
  "\<forall>s \<in> set (normalizeString [] (segs p)). seg_ok s \<and> s \<noteq> ''.'' \<and> s \<noteq> ''..''"
proof (rule normalizeString_keeps)
  show "\<forall>s \<in> set []. seg_ok s \<and> s \<noteq> ''.'' \<and> s \<noteq> ''..''" by simp
  show "\<forall>s \<in> set (segs p). s \<noteq> ''.'' \<longrightarrow> s \<noteq> ''..'' \<longrightarrow> seg_ok s \<and> s \<noteq> ''.'' \<and> s \<noteq> ''..''"
    using segs_ok by blast
qed

lemma resolved_normalized: "resolved (from_segs (normalizeString [] (segs p)))"
proof (rule resolved_from_segs)
  show "\<forall>s \<in> set (normalizeString [] (segs p)). seg_ok s"
    using normalizeString_segs_ok [of p] by blast
  show "''.'' \<notin> set (normalizeString [] (segs p))"
    using normalizeString_segs_ok [of p] by blast
  show "''..'' \<notin> set (normalizeString [] (segs p))"
    using normalizeString_segs_ok [of p] by blast
qed

lemma resolved_path_resolve: "resolved (path_resolve wd p)"
  unfolding path_resolve_def by (rule resolved_normalized)

lemma path_resolve_resolved: "resolved p \<Longrightarrow> path_resolve wd p = p"
proof -
  assume r: "resolved p"
  then have p: "p = from_segs (segs p)" by (simp add: resolved_def)
  then have "isAbsolute p" using isAbsolute_from_segs [of "segs p"] by simp
  moreover have "normalizeString [] (segs p) = segs p"
    using r by (simp add: resolved_def normalizeString_plain)
  ultimately show ?thesis using p by (simp add: path_resolve_def)
qed

lemma resolved_dirname: "resolved p \<Longrightarrow> resolved (path_dirname p)"
  unfolding path_dirname_def
  by (rule resolved_from_segs) (auto simp: resolved_def dest: in_set_butlastD segs_ok)

lemma segs_join:
  assumes "resolved p" "seg_ok name" "name \<noteq> ''.''" "name \<noteq> ''..''"
  shows "segs (path_join p name) = segs p @ [name]"
proof -
  have n: "segs name = [name]"
    using assms(2) by (simp add: segs_def seg_ok_def splitSep_plain)
  have "normalizeString [] (segs p @ [name]) = segs p @ [name]"
    using assms by (simp add: resolved_def normalizeString_plain)
  then have "path_join p name = from_segs (segs p @ [name])"
    by (simp add: path_join_def segs_append n)
  moreover have "\<forall>s \<in> set (segs p @ [name]). seg_ok s"
    using assms(2) segs_ok by auto
  ultimately show ?thesis by (simp add: segs_from_segs)
qed

lemma resolved_join:
  assumes "resolved p" "seg_ok name" "name \<noteq> ''.''" "name \<noteq> ''..''"
  shows "resolved (path_join p name)"
proof -
  have n: "segs name = [name]"
    using assms(2) by (simp add: segs_def seg_ok_def splitSep_plain)
  have "normalizeString [] (segs p @ [name]) = segs p @ [name]"
    using assms by (simp add: resolved_def normalizeString_plain)
  then have "path_join p name = from_segs (segs p @ [name])"
    by (simp add: path_join_def segs_append n)
  moreover have "resolved (from_segs (segs p @ [name]))"
    using assms segs_ok by (intro resolved_from_segs) (auto simp: resolved_def)
  ultimately show ?thesis by simp
qed

termination findWorkspaceRoot_loop
proof (relation "measure (\<lambda>(w, p). 2 * length (segs p) + (if from_segs (segs p) = p then 0 else 1))")
  show "wf (measure (\<lambda>(w, p). 2 * length (segs p) + (if from_segs (segs p) = p then 0 else 1)))"
    by simp
next
  fix w :: world and currentPath
  assume ne: "currentPath \<noteq> path_dirname currentPath"
  show "((w, path_dirname currentPath), (w, currentPath))
        \<in> measure (\<lambda>(w, p). 2 * length (segs p) + (if from_segs (segs p) = p then 0 else 1))"
  proof (cases "segs currentPath = []")
    case True
    then have "path_dirname currentPath = ''/''" by (simp add: path_dirname_def)
    with ne True show ?thesis
      by (auto simp: segs_root)
  next
    case False
    then show ?thesis
      by (auto simp: segs_dirname path_dirname_def[symmetric])
  qed
qed

section \<open>The containment checker\<close>

lemma isWithinWorkspace_resolved:
  assumes "resolved candidate" "resolved root"
  shows "isWithinWorkspace wd candidate root \<longleftrightarrow> candidate = root \<or> prefix (root @ sep) candidate"
  using assms by (auto simp: isWithinWorkspace_def startsWith_def path_resolve_resolved)

lemma resolved_not_root:
  assumes "resolved root" "root \<noteq> ''/''"
  shows "segs root \<noteq> []"
proof
  assume "segs root = []"
  then have "root = from_segs []" using assms(1) by (simp add: resolved_def)
  with assms(2) show False by simp
qed

lemma resolved_child:
  assumes "resolved root" "root \<noteq> ''/''"
  shows "resolved (root @ ''/x'')"
proof -
  have ne: "segs root \<noteq> []" using assms by (rule resolved_not_root)
  have "root @ ''/x'' = from_segs (segs root) @ ''/x''"
    using assms(1) by (simp add: resolved_def)
  also have "\<dots> = from_segs (segs root @ [''x''])"
    using ne by (simp add: from_segs_snoc)
  finally have eq: "root @ ''/x'' = from_segs (segs root @ [''x''])" .
  have "resolved (from_segs (segs root @ [''x'']))"
    using assms(1) segs_ok by (intro resolved_from_segs) (auto simp: resolved_def seg_ok_def)
  then show ?thesis by (simp only: eq)
qed

lemma resolved_sibling:
  assumes "resolved root"
  shows "resolved (root @ ''_sibling'')"
proof (cases "root = ''/''")
  case True
  then show ?thesis by (simp add: resolved_def segs_def)
next
  case False
  then have ne: "segs root \<noteq> []" using assms resolved_not_root by blast
  then obtain ss x where sx: "segs root = ss @ [x]"
    by (metis rev_exhaust)
  have "root @ ''_sibling'' = from_segs (ss @ [x]) @ ''_sibling''"
    using assms sx by (simp add: resolved_def)
  then have eq: "root @ ''_sibling'' = from_segs (ss @ [x @ ''_sibling''])"
    by (simp only: from_segs_extend)
  have okx: "seg_ok x" using segs_ok [of x root] sx by simp
  have oks: "\<forall>s \<in> set ss. seg_ok s" using segs_ok [of _ root] sx by simp
  have "resolved (from_segs (ss @ [x @ ''_sibling'']))"
  proof (rule resolved_from_segs)
    show "\<forall>s \<in> set (ss @ [x @ ''_sibling'']). seg_ok s"
      using okx oks by (auto simp: seg_ok_def)
    show "''.'' \<notin> set (ss @ [x @ ''_sibling''])"
      using assms sx by (auto simp: resolved_def append_eq_Cons_conv)
    show "''..'' \<notin> set (ss @ [x @ ''_sibling''])"
      using assms sx by (auto simp: resolved_def append_eq_Cons_conv)
  qed
  then show ?thesis by (simp only: eq)
qed

lemma dirname_shorter:
  assumes "resolved root" "root \<noteq> ''/''"
  shows "length (path_dirname root) \<le> length root" "path_dirname root \<noteq> root"
proof -
  have ne: "segs root \<noteq> []" using assms by (rule resolved_not_root)
  have r: "root = from_segs (segs root)" using assms(1) by (simp add: resolved_def)
  have "length (from_segs (butlast (segs root))) \<le> length (from_segs (segs root))"
    using ne by (rule length_from_segs_butlast)
  then show "length (path_dirname root) \<le> length root"
    using r by (simp add: path_dirname_def)
  have "segs (path_dirname root) = butlast (segs root)" by (rule segs_dirname)
  then have "segs (path_dirname root) \<noteq> segs root"
    using ne by (metis append_butlast_last_id append_self_conv not_Cons_self2)
  then show "path_dirname root \<noteq> root" by auto
qed

text \<open>
  Claim C2, as the code has it. For fully resolved absolute paths, \<open>isWithinWorkspace\<close>
  holds exactly when the candidate is the root or begins with the root followed by the
  separator. The root contains itself; a path that only continues the last name of the
  root (\<open>root_sibling\<close>) is outside; and for a root other than the filesystem root,
  \<open>root/x\<close> is inside and the parent of the root is outside. (The examples of the claim
  are written \<open>check(root, candidate)\<close>.)
\<close>

theorem isWithinWorkspace_spec:
  assumes "resolved candidate" "resolved root"
  shows "(isWithinWorkspace wd candidate root \<longleftrightarrow>
            candidate = root \<or> prefix (root @ sep) candidate)
       \<and> isWithinWorkspace wd root root
       \<and> \<not> isWithinWorkspace wd (root @ ''_sibling'') root
       \<and> (root \<noteq> ''/'' \<longrightarrow>
            isWithinWorkspace wd (root @ ''/x'') root
          \<and> \<not> isWithinWorkspace wd (path_dirname root) root)"
proof (intro conjI impI)
  show "isWithinWorkspace wd candidate root \<longleftrightarrow>
          candidate = root \<or> prefix (root @ sep) candidate"
    using assms by (rule isWithinWorkspace_resolved)
  show "isWithinWorkspace wd root root"
    using assms(2) by (simp add: isWithinWorkspace_resolved)
  show "\<not> isWithinWorkspace wd (root @ ''_sibling'') root"
    using assms(2) resolved_sibling [OF assms(2)]
    by (simp add: isWithinWorkspace_resolved sep_def)
next
  assume nr: "root \<noteq> ''/''"
  show "isWithinWorkspace wd (root @ ''/x'') root"
    using assms(2) resolved_child [OF assms(2) nr]
    by (simp add: isWithinWorkspace_resolved sep_def)
  have "\<not> prefix (root @ sep) (path_dirname root)"
    using dirname_shorter(1) [OF assms(2) nr] by (auto simp: sep_def dest: prefix_length_le)
  then show "\<not> isWithinWorkspace wd (path_dirname root) root"
    using assms(2) resolved_dirname [OF assms(2)] dirname_shorter(2) [OF assms(2) nr]
    by (simp add: isWithinWorkspace_resolved)
qed

theorem isWithinWorkspace_spec_witness:
  "resolved ''/w/src'' \<and> resolved ''/w''
   \<and> isWithinWorkspace ''/w'' ''/w/src'' ''/w''
   \<and> isWithinWorkspace ''/w'' ''/w'' ''/w''
   \<and> \<not> isWithinWorkspace ''/w'' ''/w_sibling'' ''/w''
   \<and> isWithinWorkspace ''/w'' ''/w/x'' ''/w''
   \<and> \<not> isWithinWorkspace ''/w'' (path_dirname ''/w'') ''/w''"
proof -
  have c: "resolved ''/w/src''" by (simp add: resolved_def segs_def)
  have r: "resolved ''/w''" by (simp add: resolved_def segs_def)
  show ?thesis
    using c r isWithinWorkspace_spec [OF c r, of "''/w''"] by (simp add: sep_def)
qed

text \<open>
  The claim as written fails at the filesystem root, which is its own parent: there
  \<open>check(root, parent(root))\<close> is true.
\<close>

theorem isWithinWorkspace_root_counterexample:
  "resolved ''/'' \<and> resolved (path_dirname ''/'')
   \<and> isWithinWorkspace ''/'' (path_dirname ''/'') ''/''"
  by (simp add: resolved_def segs_def path_dirname_def isWithinWorkspace_def path_resolve_def
      isAbsolute_def startsWith_def)

section \<open>The workspace root locator\<close>

lemma lookup_append:
  "lookup t (ps @ qs) = (case lookup t ps of None \<Rightarrow> None | Some n \<Rightarrow> lookup n qs)"
proof (induction t ps rule: lookup.induct)
  case (1 n)
  then show ?case by simp
next
  case (2 s ss)
  then show ?case by simp
next
  case (3 r w es s ss)
  then show ?case by (simp split: option.splits)
qed

lemma map_of_present: "(\<exists>y. map_of es k = Some y) \<longleftrightarrow> k \<in> fst ` set es"
  by (induction es) auto

lemma existsSync_join:
  assumes "resolved p" "seg_ok name" "name \<noteq> ''.''" "name \<noteq> ''..''"
    and "lookup (tree w) (segs p) = Some (Dir r wr es)"
  shows "existsSync w (path_join p name) \<longleftrightarrow> name \<in> fst ` set es"
proof -
  have "lookup (tree w) (segs p @ [name]) = map_of es name"
    using assms(5) by (simp add: lookup_append split: option.splits)
  then show ?thesis
    using segs_join [OF assms(1-4)] by (simp add: existsSync_def map_of_present)
qed

lemma find_present: "(\<exists>y. find P xs = Some y) \<longleftrightarrow> (\<exists>x \<in> set xs. P x)"
  by (induction xs) auto

lemma bex_cases:
  "(\<exists>n \<in> S. n = a \<or> n = b \<or> n = c \<or> Q n) \<longleftrightarrow> (a \<in> S \<or> b \<in> S \<or> c \<in> S \<or> (\<exists>n \<in> S. Q n))"
  by blast

lemma marker_test:
  assumes "resolved p" "readdirSync w p = Inr files"
  shows "(existsSync w (path_join p ''.vscode'') \<or> existsSync w (path_join p ''.git'') \<or>
          existsSync w (path_join p ''package.json'') \<or>
          find (\<lambda>file. endsWith file ''.code-workspace'') files \<noteq> None)
         \<longleftrightarrow> contains_marker w p"
proof -
  from assms(2) obtain r wr es where
    l: "lookup (tree w) (segs p) = Some (Dir r wr es)" and f: "files = map fst es"
    by (auto simp: readdirSync_def split: option.splits node.splits if_splits)
  have a: "existsSync w (path_join p ''.vscode'') \<longleftrightarrow> ''.vscode'' \<in> fst ` set es"
    using assms(1) l by (intro existsSync_join) (simp_all add: seg_ok_def)
  have b: "existsSync w (path_join p ''.git'') \<longleftrightarrow> ''.git'' \<in> fst ` set es"
    using assms(1) l by (intro existsSync_join) (simp_all add: seg_ok_def)
  have c: "existsSync w (path_join p ''package.json'') \<longleftrightarrow> ''package.json'' \<in> fst ` set es"
    using assms(1) l by (intro existsSync_join) (simp_all add: seg_ok_def)
  have d: "find (\<lambda>file. endsWith file ''.code-workspace'') files \<noteq> None
           \<longleftrightarrow> (\<exists>name \<in> fst ` set es. endsWith name ''.code-workspace'')"
    unfolding not_None_eq find_present f by auto
  have e: "contains_marker w p \<longleftrightarrow> (\<exists>name \<in> fst ` set es. is_marker name)"
    using l by (force simp: contains_marker_def list_ex_iff)
  have "(\<exists>name \<in> fst ` set es. is_marker name) \<longleftrightarrow>
        (''.vscode'' \<in> fst ` set es \<or> ''.git'' \<in> fst ` set es \<or>
         ''package.json'' \<in> fst ` set es \<or>
         (\<exists>name \<in> fst ` set es. endsWith name ''.code-workspace''))"
    unfolding is_marker_def by (rule bex_cases)
  then show ?thesis
    by (simp only: a b c d e)
qed

lemma tl_prefixes_snoc: "tl (prefixes (ss @ [x])) = tl (prefixes ss) @ [ss @ [x]]"
  by (cases "prefixes ss") simp_all

lemma loop_scan:
  assumes "\<forall>s \<in> set ss. seg_ok s" "''.'' \<notin> set ss" "''..'' \<notin> set ss"
  shows "findWorkspaceRoot_loop w (from_segs ss) = scan w (map from_segs (rev (tl (prefixes ss))))"
  using assms
proof (induction ss rule: rev_induct)
  case Nil
  have "path_dirname ''/'' = ''/''" by (simp add: path_dirname_def segs_root)
  then show ?case by simp
next
  case (snoc x ss)
  let ?p = "from_segs (ss @ [x])"
  have sg: "segs ?p = ss @ [x]" using snoc.prems(1) by (rule segs_from_segs)
  have rp: "resolved ?p" using snoc.prems by (rule resolved_from_segs)
  have dn: "path_dirname ?p = from_segs ss" by (simp add: path_dirname_def sg)
  have "segs (from_segs ss) = ss" using snoc.prems(1) by (intro segs_from_segs) simp
  then have ne: "?p \<noteq> path_dirname ?p" using sg dn by (metis append_self_conv not_Cons_self2)
  have ih: "findWorkspaceRoot_loop w (from_segs ss) = scan w (map from_segs (rev (tl (prefixes ss))))"
    using snoc.prems by (intro snoc.IH) simp_all
  show ?case
  proof (cases "readdirSync w ?p")
    case (Inl e)
    then show ?thesis using ne
      by (subst findWorkspaceRoot_loop.simps) (simp add: tl_prefixes_snoc)
  next
    case (Inr files)
    show ?thesis using ne Inr marker_test [OF rp Inr] ih
      by (subst findWorkspaceRoot_loop.simps) (simp add: tl_prefixes_snoc dn Let_def)
  qed
qed

lemma findWorkspaceRoot_scan:
  "findWorkspaceRoot w wd d = scan w (examined (path_resolve wd d))"
proof -
  let ?ss = "normalizeString [] (segs (if isAbsolute d then d else wd @ sep @ d))"
  have ok: "\<forall>s \<in> set ?ss. seg_ok s" "''.'' \<notin> set ?ss" "''..'' \<notin> set ?ss"
    using normalizeString_segs_ok [of "if isAbsolute d then d else wd @ sep @ d"] by blast+
  have "segs (from_segs ?ss) = ?ss" using ok(1) by (rule segs_from_segs)
  then show ?thesis
    using loop_scan [OF ok, of w]
    by (simp add: findWorkspaceRoot_def examined_def path_resolve_def)
qed

lemma scan_visited:
  "\<forall>a \<in> set (visited w as). \<exists>files. readdirSync w a = Inr files \<Longrightarrow>
   scan w as = Inr (find (contains_marker w) as)"
  by (induction as) auto

lemma scan_error:
  assumes "\<forall>b \<in> set nearer. (\<exists>files. readdirSync w b = Inr files) \<and> \<not> contains_marker w b"
    and "readdirSync w a = Inl e"
  shows "scan w (nearer @ a # farther) = Inl e"
  using assms by (induction nearer) auto

lemma examined_ancestors: "examined p = butlast (ancestors p)"
  by (simp add: examined_def ancestors_def map_butlast [symmetric] butlast_rev)

lemma last_ancestors: "last (ancestors p) = ''/''"
proof -
  have "prefixes (segs p) \<noteq> []" by (cases "segs p" rule: rev_cases) simp_all
  moreover have "hd (prefixes (segs p)) = []" by (cases "segs p" rule: rev_cases) (simp_all add: hd_append)
  ultimately show ?thesis
    by (simp add: ancestors_def last_map last_rev)
qed

text \<open>
  Claim C1, as the code has it. The walk comes to the starting directory and then to
  its ancestors, nearest first, up to and including the first that contains an entry,
  of whatever type, named \<open>.vscode\<close>, \<open>.git\<close> or \<open>package.json\<close>, or an entry whose name
  ends with \<open>.code-workspace\<close>; it never comes to the filesystem root. When every
  directory the walk comes to can be listed (those beyond it may be closed),
  \<open>findWorkspaceRoot\<close> returns the nearest ancestor of the starting directory (the
  starting directory included, the filesystem root excluded) that contains such an
  entry; and it returns the absent result exactly when no such ancestor below the
  filesystem root exists. The ancestors below the filesystem root are all the ancestors
  but the last, which is the filesystem root.
\<close>

theorem findWorkspaceRoot_nearest:
  assumes "\<forall>a \<in> set (visited w (examined (path_resolve wd d))). \<exists>files. readdirSync w a = Inr files"
  shows "findWorkspaceRoot w wd d = Inr (find (contains_marker w) (examined (path_resolve wd d)))
       \<and> (findWorkspaceRoot w wd d = Inr None \<longleftrightarrow>
            \<not> (\<exists>a \<in> set (examined (path_resolve wd d)). contains_marker w a))
       \<and> examined (path_resolve wd d) = butlast (ancestors (path_resolve wd d))
       \<and> last (ancestors (path_resolve wd d)) = ''/''"
proof -
  have "findWorkspaceRoot w wd d = Inr (find (contains_marker w) (examined (path_resolve wd d)))"
    using assms by (simp add: findWorkspaceRoot_scan scan_visited)
  then show ?thesis
    by (auto simp: find_None_iff examined_ancestors [symmetric] last_ancestors)
qed

theorem findWorkspaceRoot_nearest_witness:
  "examined (path_resolve ''/locked/ws/src'' ''/locked/ws/src'')
     = [''/locked/ws/src'', ''/locked/ws'', ''/locked'']
   \<and> visited fs_locked_above (examined (path_resolve ''/locked/ws/src'' ''/locked/ws/src''))
     = [''/locked/ws/src'', ''/locked/ws'']
   \<and> readdirSync fs_locked_above ''/locked/ws/src'' = Inr []
   \<and> readdirSync fs_locked_above ''/locked/ws'' = Inr [''.git'', ''src'']
   \<and> readdirSync fs_locked_above ''/locked'' = Inl (FsError EACCES ''scandir'' ''/locked'')
   \<and> findWorkspaceRoot fs_locked_above ''/locked/ws/src'' ''/locked/ws/src''
     = Inr (Some ''/locked/ws'')"
proof -
  have ex: "examined (path_resolve ''/locked/ws/src'' ''/locked/ws/src'')
            = [''/locked/ws/src'', ''/locked/ws'', ''/locked'']"
    by (simp add: examined_def path_resolve_def isAbsolute_def segs_def)
  have m1: "\<not> contains_marker fs_locked_above ''/locked/ws/src''"
    by (simp add: contains_marker_def fs_locked_above_def segs_def)
  have m2: "contains_marker fs_locked_above ''/locked/ws''"
    by (simp add: contains_marker_def fs_locked_above_def segs_def is_marker_def)
  have vs: "visited fs_locked_above (examined (path_resolve ''/locked/ws/src'' ''/locked/ws/src''))
            = [''/locked/ws/src'', ''/locked/ws'']"
    unfolding ex using m1 m2 by simp
  have r1: "readdirSync fs_locked_above ''/locked/ws/src'' = Inr []"
    by (simp add: readdirSync_def fs_locked_above_def segs_def)
  have r2: "readdirSync fs_locked_above ''/locked/ws'' = Inr [''.git'', ''src'']"
    by (simp add: readdirSync_def fs_locked_above_def segs_def)
  have r3: "readdirSync fs_locked_above ''/locked'' = Inl (FsError EACCES ''scandir'' ''/locked'')"
    by (simp add: readdirSync_def fs_locked_above_def segs_def)
  have ls: "\<forall>a \<in> set (visited fs_locked_above
                (examined (path_resolve ''/locked/ws/src'' ''/locked/ws/src''))).
              \<exists>files. readdirSync fs_locked_above a = Inr files"
    unfolding vs using r1 r2 by simp
  show ?thesis
    using findWorkspaceRoot_nearest [OF ls] ex vs r1 r2 r3 m1 m2 by simp
qed

text \<open>
  The claim as written fails twice. A marker directly under the filesystem root is never
  found, since the walk stops before it looks at the filesystem root: from \<open>/home\<close>, with
  \<open>/package.json\<close> present, the result is absent. And the type of a marker is not
  looked at: from \<open>/w/sub\<close>, where \<open>.git\<close> is a plain file, the result is \<open>/w/sub\<close>, though
  the nearest ancestor with a directory named \<open>.git\<close> is \<open>/w\<close>.
\<close>

theorem findWorkspaceRoot_counterexample:
  "findWorkspaceRoot fs_marker_at_root ''/home'' ''/home'' = Inr None
   \<and> find (claimed_marker fs_marker_at_root) (ancestors ''/home'') = Some ''/''
   \<and> findWorkspaceRoot fs_git_file ''/w/sub'' ''/w/sub'' = Inr (Some ''/w/sub'')
   \<and> find (claimed_marker fs_git_file) (ancestors ''/w/sub'') = Some ''/w''"
proof (intro conjI)
  show "findWorkspaceRoot fs_marker_at_root ''/home'' ''/home'' = Inr None"
    by (simp add: findWorkspaceRoot_scan examined_def path_resolve_def isAbsolute_def segs_def
        fs_marker_at_root_def readdirSync_def contains_marker_def is_marker_def endsWith_def
        suffix_to_prefix)
  show "find (claimed_marker fs_marker_at_root) (ancestors ''/home'') = Some ''/''"
    by (simp add: ancestors_def segs_def claimed_marker_def fs_marker_at_root_def endsWith_def
        suffix_to_prefix)
  show "findWorkspaceRoot fs_git_file ''/w/sub'' ''/w/sub'' = Inr (Some ''/w/sub'')"
    by (simp add: findWorkspaceRoot_scan examined_def path_resolve_def isAbsolute_def segs_def
        fs_git_file_def readdirSync_def contains_marker_def is_marker_def endsWith_def
        suffix_to_prefix)
  show "find (claimed_marker fs_git_file) (ancestors ''/w/sub'') = Some ''/w''"
    by (simp add: ancestors_def segs_def claimed_marker_def fs_git_file_def endsWith_def
        suffix_to_prefix)
qed

text \<open>
  Claim C9. When the walk comes to an ancestor that cannot be listed (every nearer
  ancestor was listed and held no marker), \<open>findWorkspaceRoot\<close> throws the error of the
  listing: it neither goes on to the parent nor returns the absent result, whatever
  that ancestor or the farther ones contain.
\<close>

theorem findWorkspaceRoot_listing_failure:
  assumes "examined (path_resolve wd d) = nearer @ a # farther"
    and "\<forall>b \<in> set nearer. (\<exists>files. readdirSync w b = Inr files) \<and> \<not> contains_marker w b"
    and "readdirSync w a = Inl e"
  shows "findWorkspaceRoot w wd d = Inl e"
  using assms by (simp add: findWorkspaceRoot_scan scan_error)

theorem findWorkspaceRoot_listing_failure_witness:
  "examined (path_resolve ''/locked/sub'' ''/locked/sub'') = [''/locked/sub''] @ ''/locked'' # []
   \<and> readdirSync fs_locked ''/locked/sub'' = Inr []
   \<and> \<not> contains_marker fs_locked ''/locked/sub''
   \<and> contains_marker fs_locked ''/locked''
   \<and> readdirSync fs_locked ''/locked'' = Inl (FsError EACCES ''scandir'' ''/locked'')
   \<and> findWorkspaceRoot fs_locked ''/locked/sub'' ''/locked/sub''
       = Inl (FsError EACCES ''scandir'' ''/locked'')"
proof -
  have ex: "examined (path_resolve ''/locked/sub'' ''/locked/sub'')
            = [''/locked/sub''] @ ''/locked'' # []"
    by (simp add: examined_def path_resolve_def isAbsolute_def segs_def)
  have r1: "readdirSync fs_locked ''/locked/sub'' = Inr []"
    by (simp add: readdirSync_def fs_locked_def segs_def)
  have m1: "\<not> contains_marker fs_locked ''/locked/sub''"
    by (simp add: contains_marker_def fs_locked_def segs_def)
  have m2: "contains_marker fs_locked ''/locked''"
    by (simp add: contains_marker_def fs_locked_def segs_def is_marker_def)
  have r2: "readdirSync fs_locked ''/locked'' = Inl (FsError EACCES ''scandir'' ''/locked'')"
    by (simp add: readdirSync_def fs_locked_def segs_def)
  have nearer: "\<forall>b \<in> set [''/locked/sub''].
                  (\<exists>files. readdirSync fs_locked b = Inr files) \<and> \<not> contains_marker fs_locked b"
    using r1 m1 by simp
  show ?thesis
    using findWorkspaceRoot_listing_failure [OF ex nearer r2] ex r1 m1 m2 r2 by simp
qed

section \<open>The commands\<close>

lemma fs_after_process_exit [simp]: "fs_after (process_exit c out w) = w"
  by (simp add: process_exit_def)

lemma exit_code_process_exit [simp]: "exit_code (process_exit c out w) = c"
  by (simp add: process_exit_def)

lemma printed_process_exit [simp]: "printed (process_exit c out w) = out"
  by (simp add: process_exit_def)

lemma cd_main_fs: "fs_after (cd_main env args) = fs env"
  by (simp add: cd_main_def Let_def split: sum.splits option.splits)

lemma mv_main_check_fs: "''--check'' \<in> set args \<Longrightarrow> fs_after (mv_main env args) = fs env"
  by (simp add: mv_main_def Let_def split: sum.splits option.splits list.splits)

lemma rm_main_check_fs:
  "''--check'' \<in> set args \<Longrightarrow> \<exists>r. rm_main depth env args = Some r \<and> fs_after r = fs env"
  by (simp add: rm_main_def Let_def split: sum.splits option.splits)

text \<open>
  Claim C7. With the \<open>--check\<close> flag, whatever the other arguments are, each of the three
  commands ends with the filesystem it started from, and with no mutating call made
  (the calls are part of the state that is compared). The remove command ends whatever
  the bound on its recursion is.
\<close>

theorem check_never_mutates:
  assumes "''--check'' \<in> set args"
  shows "fs_after (cd_main env args) = fs env
       \<and> fs_after (mv_main env args) = fs env
       \<and> (\<exists>r. rm_main depth env args = Some r \<and> fs_after r = fs env)"
  using assms cd_main_fs mv_main_check_fs rm_main_check_fs by blast

theorem check_never_mutates_witness:
  "''--check'' \<in> set [''--check'', ''a.txt'', ''../other/b.txt'']
   \<and> fs_after (cd_main \<lparr>cwd = ''/w'', fs = fs_workspace\<rparr> [''--check'', ''a.txt'', ''../other/b.txt''])
       = fs_workspace
   \<and> fs_after (mv_main \<lparr>cwd = ''/w'', fs = fs_workspace\<rparr> [''--check'', ''a.txt'', ''../other/b.txt''])
       = fs_workspace
   \<and> map_option fs_after
        (rm_main 0 \<lparr>cwd = ''/w'', fs = fs_workspace\<rparr> [''--check'', ''a.txt'', ''../other/b.txt''])
       = Some fs_workspace"
proof -
  have c: "''--check'' \<in> set [''--check'', ''a.txt'', ''../other/b.txt'']" by simp
  show ?thesis
    using c check_never_mutates [OF c, of "\<lparr>cwd = ''/w'', fs = fs_workspace\<rparr>" 0]
    by auto
qed

lemma scan_member: "scan w as = Inr (Some r) \<Longrightarrow> r \<in> set as"
  by (induction as) (auto split: sum.splits if_splits)

lemma findWorkspaceRoot_nonempty:
  assumes "findWorkspaceRoot w wd d = Inr (Some r)"
  shows "r \<noteq> []"
proof -
  have "r \<in> set (examined (path_resolve wd d))"
    using assms by (simp add: findWorkspaceRoot_scan scan_member)
  then obtain ss where "r = from_segs ss" by (auto simp: examined_def)
  then show ?thesis using from_segs_head [of ss] by auto
qed

subsection \<open>mv-vs-local\<close>

lemma mv_main_outside:
  assumes "operating args" "nonFlagArgs args = [s, d]"
    and "findWorkspaceRoot (fs env) (cwd env) (cwd env) = Inr (Some root)"
    and "\<not> isWithinWorkspace (cwd env) (path_resolve (cwd env) s) root \<or>
         \<not> isWithinWorkspace (cwd env) (path_resolve (cwd env) d) root"
  shows "exit_code (mv_main env args) = 1 \<and> fs_after (mv_main env args) = fs env"
proof -
  have "root \<noteq> []" using assms(3) by (rule findWorkspaceRoot_nonempty)
  then show ?thesis
    using assms by (auto simp: mv_main_def Let_def operating_def nonFlagArgs_def)
qed

lemma mv_main_mutates:
  assumes "fs_after (mv_main env args) \<noteq> fs env"
  shows "\<exists>root s d. nonFlagArgs args = [s, d] \<and>
           findWorkspaceRoot (fs env) (cwd env) (cwd env) = Inr (Some root) \<and>
           isWithinWorkspace (cwd env) (path_resolve (cwd env) s) root \<and>
           isWithinWorkspace (cwd env) (path_resolve (cwd env) d) root"
  using assms
  by (simp add: mv_main_def Let_def nonFlagArgs_def
      split: sum.splits option.splits list.splits if_splits)

lemma renameSync_failure_tree: "renameSync w old new = (Some e, w') \<Longrightarrow> tree w' = tree w"
  by (auto simp: renameSync_def Let_def called_def split: option.splits node.splits if_splits)

lemma lookup_fresh_dirs: "lookup (fresh_dirs ss) ss = Some (Dir True True [])"
  by (induction ss) simp_all

lemma map_of_replace:
  "map_of es s = Some c \<Longrightarrow>
   map_of (map (\<lambda>(k, d). if k = s then (k, c') else (k, d)) es) s = Some c'"
  by (induction es) (auto split: if_splits)

lemma mkdirp_lookup: "mkdirp ss n = Inr n' \<Longrightarrow> lookup n' ss \<noteq> None"
proof (induction ss n arbitrary: n' rule: mkdirp.induct)
  case 1
  then show ?case by simp
next
  case (2 r w es)
  then show ?case by auto
next
  case (3 s ss)
  then show ?case by simp
next
  case (4 s ss r w es)
  show ?case
  proof (cases "map_of es s")
    case None
    then have "n' = Dir r w (es @ [(s, fresh_dirs ss)])"
      using "4.prems" by (simp split: if_splits)
    then show ?thesis
      using None by (simp add: map_add_def lookup_fresh_dirs)
  next
    case (Some c)
    then obtain c' where c': "mkdirp ss c = Inr c'"
      and n': "n' = Dir r w (map (\<lambda>(k, d). if k = s then (k, c') else (k, d)) es)"
      using "4.prems" by (auto split: sum.splits)
    have "lookup c' ss \<noteq> None" using "4.IH" [OF Some c'] .
    then show ?thesis
      using map_of_replace [OF Some, of c'] by (simp add: n')
  qed
qed

lemma mkdirSync_exists: "mkdirSync w p = (None, w1) \<Longrightarrow> existsSync w1 p"
  by (auto simp: mkdirSync_def Let_def called_def existsSync_def split: sum.splits
      dest: mkdirp_lookup)

lemma mv_main_failed_rename:
  assumes "operating args" "nonFlagArgs args = [s, d]"
    and "findWorkspaceRoot (fs env) (cwd env) (cwd env) = Inr (Some root)"
    and "existsSync (fs env) (path_resolve (cwd env) s)"
    and "isWithinWorkspace (cwd env) (path_resolve (cwd env) s) root"
    and "isWithinWorkspace (cwd env) (path_resolve (cwd env) d) root"
    and "\<not> existsSync (fs env) (path_dirname (path_resolve (cwd env) d))"
    and "mkdirSync (fs env) (path_dirname (path_resolve (cwd env) d)) = (None, w1)"
    and "renameSync w1 (path_resolve (cwd env) s) (path_resolve (cwd env) d) = (Some e, w2)"
  shows "exit_code (mv_main env args) = 1 \<and> fs_after (mv_main env args) = w2"
proof -
  have "root \<noteq> []" using assms(3) by (rule findWorkspaceRoot_nonempty)
  then show ?thesis
    using assms
    by (simp add: mv_main_def Let_def operating_def nonFlagArgs_def make_destDir_def)
qed

lemma root_of_fs_workspace: "findWorkspaceRoot fs_workspace ''/w'' ''/w'' = Inr (Some ''/w'')"
  by (simp add: findWorkspaceRoot_scan examined_def path_resolve_def isAbsolute_def segs_def
      fs_workspace_def readdirSync_def contains_marker_def is_marker_def)

lemma mkdir_deep:
  "mkdirSync fs_workspace ''/w/src/deep/er''
   = (None,
      \<lparr>tree = Dir True True
         [(''w'', Dir True True
            [(''package.json'', File),
             (''a.txt'', File),
             (''src'', Dir True True
                [(''main.js'', File),
                 (''lib'', Dir True True [(''util.js'', File)]),
                 (''deep'', Dir True True [(''er'', Dir True True [])])])]),
          (''other'', Dir True True [(''b.txt'', File)])],
       calls = [Mkdir ''/w/src/deep/er'']\<rparr>)"
  by (simp add: mkdirSync_def Let_def fs_workspace_def segs_def called_def)

lemma rename_into_itself:
  "renameSync (snd (mkdirSync fs_workspace ''/w/src/deep/er'')) ''/w/src'' ''/w/src/deep/er/moved''
   = (Some (FsError EINVAL ''rename'' ''/w/src''),
      (snd (mkdirSync fs_workspace ''/w/src/deep/er''))
        \<lparr>calls := [Mkdir ''/w/src/deep/er'', Rename ''/w/src'' ''/w/src/deep/er/moved'']\<rparr>)"
  by (simp add: mkdir_deep renameSync_def Let_def segs_def called_def)

lemma mv_into_itself_facts:
  "operating [''src'', ''src/deep/er/moved'']"
  "nonFlagArgs [''src'', ''src/deep/er/moved''] = [''src'', ''src/deep/er/moved'']"
  "path_resolve ''/w'' ''src'' = ''/w/src''"
  "path_resolve ''/w'' ''src/deep/er/moved'' = ''/w/src/deep/er/moved''"
  "path_dirname ''/w/src/deep/er/moved'' = ''/w/src/deep/er''"
  "existsSync fs_workspace ''/w/src''"
  "\<not> existsSync fs_workspace ''/w/src/deep/er''"
  "isWithinWorkspace ''/w'' ''/w/src'' ''/w''"
  "isWithinWorkspace ''/w'' ''/w/src/deep/er/moved'' ''/w''"
  by (simp_all add: operating_def nonFlagArgs_def startsWith_def path_resolve_def isAbsolute_def
      segs_def sep_def path_dirname_def existsSync_def fs_workspace_def isWithinWorkspace_def)

lemma mv_into_itself_run:
  "fs_after (mv_main \<lparr>cwd = ''/w'', fs = fs_workspace\<rparr> [''src'', ''src/deep/er/moved''])
   = (snd (mkdirSync fs_workspace ''/w/src/deep/er''))
       \<lparr>calls := [Mkdir ''/w/src/deep/er'', Rename ''/w/src'' ''/w/src/deep/er/moved'']\<rparr>"
  using mv_main_failed_rename [of "[''src'', ''src/deep/er/moved'']" "''src''" "''src/deep/er/moved''"
      "\<lparr>cwd = ''/w'', fs = fs_workspace\<rparr>" "''/w''"
      "snd (mkdirSync fs_workspace ''/w/src/deep/er'')" "FsError EINVAL ''rename'' ''/w/src''"
      "(snd (mkdirSync fs_workspace ''/w/src/deep/er''))
         \<lparr>calls := [Mkdir ''/w/src/deep/er'', Rename ''/w/src'' ''/w/src/deep/er/moved'']\<rparr>"]
    mv_into_itself_facts root_of_fs_workspace rename_into_itself
  by (simp add: mkdir_deep)

text \<open>
  Claim C4. In a run of the move command that performs the move, on a found workspace
  root, with source and destination given: if the resolved source or the resolved
  destination is outside the workspace, the exit code is 1 and the filesystem is left as
  it was, with no mutating call made. And in any run at all, a mutating call is made
  only after both the resolved source and the resolved destination passed the
  containment check.
\<close>

theorem mv_validates_before_mutating:
  "(operating args \<and> nonFlagArgs args = [s, d] \<and>
    findWorkspaceRoot (fs env) (cwd env) (cwd env) = Inr (Some root) \<and>
    (\<not> isWithinWorkspace (cwd env) (path_resolve (cwd env) s) root \<or>
     \<not> isWithinWorkspace (cwd env) (path_resolve (cwd env) d) root)
    \<longrightarrow> exit_code (mv_main env args) = 1 \<and> fs_after (mv_main env args) = fs env)
   \<and> (fs_after (mv_main env args) \<noteq> fs env
    \<longrightarrow> (\<exists>root' s' d'. nonFlagArgs args = [s', d'] \<and>
           findWorkspaceRoot (fs env) (cwd env) (cwd env) = Inr (Some root') \<and>
           isWithinWorkspace (cwd env) (path_resolve (cwd env) s') root' \<and>
           isWithinWorkspace (cwd env) (path_resolve (cwd env) d') root'))"
  using mv_main_outside [of args s d env root] mv_main_mutates [of env args] by blast

theorem mv_validates_before_mutating_witness:
  "operating [''a.txt'', ''../other/c.txt'']
   \<and> nonFlagArgs [''a.txt'', ''../other/c.txt''] = [''a.txt'', ''../other/c.txt'']
   \<and> findWorkspaceRoot fs_workspace ''/w'' ''/w'' = Inr (Some ''/w'')
   \<and> path_resolve ''/w'' ''../other/c.txt'' = ''/other/c.txt''
   \<and> \<not> isWithinWorkspace ''/w'' ''/other/c.txt'' ''/w''
   \<and> exit_code (mv_main \<lparr>cwd = ''/w'', fs = fs_workspace\<rparr> [''a.txt'', ''../other/c.txt'']) = 1
   \<and> fs_after (mv_main \<lparr>cwd = ''/w'', fs = fs_workspace\<rparr> [''a.txt'', ''../other/c.txt''])
       = fs_workspace
   \<and> fs_after (mv_main \<lparr>cwd = ''/w'', fs = fs_workspace\<rparr> [''src'', ''src/deep/er/moved''])
       \<noteq> fs_workspace
   \<and> nonFlagArgs [''src'', ''src/deep/er/moved''] = [''src'', ''src/deep/er/moved'']
   \<and> isWithinWorkspace ''/w'' (path_resolve ''/w'' ''src'') ''/w''
   \<and> isWithinWorkspace ''/w'' (path_resolve ''/w'' ''src/deep/er/moved'') ''/w''"
proof -
  let ?env = "\<lparr>cwd = ''/w'', fs = fs_workspace\<rparr>"
  have a: "operating [''a.txt'', ''../other/c.txt'']" by (simp add: operating_def)
  have b: "nonFlagArgs [''a.txt'', ''../other/c.txt''] = [''a.txt'', ''../other/c.txt'']"
    by (simp add: nonFlagArgs_def startsWith_def)
  have c: "path_resolve ''/w'' ''../other/c.txt'' = ''/other/c.txt''"
    by (simp add: path_resolve_def isAbsolute_def segs_def sep_def)
  have d: "\<not> isWithinWorkspace ''/w'' ''/other/c.txt'' ''/w''"
    by (simp add: isWithinWorkspace_def path_resolve_def isAbsolute_def segs_def sep_def
        startsWith_def)
  have first: "exit_code (mv_main ?env [''a.txt'', ''../other/c.txt'']) = 1
      \<and> fs_after (mv_main ?env [''a.txt'', ''../other/c.txt'']) = fs_workspace"
    using a b c d root_of_fs_workspace
      mv_validates_before_mutating [of "[''a.txt'', ''../other/c.txt'']" "''a.txt''"
        "''../other/c.txt''" ?env "''/w''"]
    by simp
  have cs: "calls (fs_after (mv_main ?env [''src'', ''src/deep/er/moved'']))
      = [Mkdir ''/w/src/deep/er'', Rename ''/w/src'' ''/w/src/deep/er/moved'']"
    by (simp add: mv_into_itself_run)
  have c0: "calls fs_workspace = []" by (simp add: fs_workspace_def)
  have ne: "fs_after (mv_main ?env [''src'', ''src/deep/er/moved'']) \<noteq> fs_workspace"
  proof
    assume "fs_after (mv_main ?env [''src'', ''src/deep/er/moved'']) = fs_workspace"
    then have "calls (fs_after (mv_main ?env [''src'', ''src/deep/er/moved''])) = calls fs_workspace"
      by simp
    then show False using cs c0 by simp
  qed
  have "\<exists>root' s' d'. nonFlagArgs [''src'', ''src/deep/er/moved''] = [s', d'] \<and>
          findWorkspaceRoot fs_workspace ''/w'' ''/w'' = Inr (Some root') \<and>
          isWithinWorkspace ''/w'' (path_resolve ''/w'' s') root' \<and>
          isWithinWorkspace ''/w'' (path_resolve ''/w'' d') root'"
    using ne mv_validates_before_mutating [of "[''src'', ''src/deep/er/moved'']" _ _ ?env]
    by simp
  then have second: "isWithinWorkspace ''/w'' (path_resolve ''/w'' ''src'') ''/w''
      \<and> isWithinWorkspace ''/w'' (path_resolve ''/w'' ''src/deep/er/moved'') ''/w''"
    using mv_into_itself_facts(2) root_of_fs_workspace by auto
  show ?thesis
    using a b c d first ne second mv_into_itself_facts(2) root_of_fs_workspace by simp
qed

subsection \<open>rm-vs-local\<close>

lemma validate_None:
  "validate w currentDir root isRecursive ps = None \<longleftrightarrow>
     (\<forall>p \<in> set ps. valid_target w currentDir root isRecursive (absolute p))"
  by (induction ps)
     (auto simp: valid_target_def is_dir_def existsSync_def statSync_def split: option.splits)

lemma absolute_resolvePath [simp]: "absolute (resolvePath currentDir p) = path_resolve currentDir p"
  by (simp add: resolvePath_def Let_def)

lemma rm_main_invalid:
  assumes "operating args"
    and "findWorkspaceRoot (fs env) (cwd env) (cwd env) = Inr (Some root)"
    and "t \<in> set (targetPaths args)"
    and "\<not> valid_target (fs env) (cwd env) root (''--recursive'' \<in> set args \<or> ''-r'' \<in> set args)
           (path_resolve (cwd env) t)"
  shows "\<exists>r. rm_main depth env args = Some r \<and> exit_code r = 1 \<and> fs_after r = fs env"
proof -
  let ?ps = "map (resolvePath (cwd env)) (targetPaths args)"
  have ne: "root \<noteq> []" using assms(2) by (rule findWorkspaceRoot_nonempty)
  have tp: "targetPaths args \<noteq> []" using assms(3) by auto
  have "\<not> (\<forall>p \<in> set ?ps. valid_target (fs env) (cwd env) root
            (''--recursive'' \<in> set args \<or> ''-r'' \<in> set args) (absolute p))"
    using assms(3,4) by auto
  then obtain out where
    "validate (fs env) (cwd env) root (''--recursive'' \<in> set args \<or> ''-r'' \<in> set args) ?ps = Some out"
    using validate_None [of "fs env" "cwd env" root _ ?ps] by blast
  then show ?thesis
    using assms(1,2) ne tp
    by (simp add: rm_main_def Let_def operating_def targetPaths_def [symmetric])
qed

lemma rm_main_mutates:
  assumes "rm_main depth env args = Some r" "fs_after r \<noteq> fs env"
  shows "\<exists>root. findWorkspaceRoot (fs env) (cwd env) (cwd env) = Inr (Some root) \<and>
           (\<forall>t \<in> set (targetPaths args).
              valid_target (fs env) (cwd env) root (''--recursive'' \<in> set args \<or> ''-r'' \<in> set args)
                (path_resolve (cwd env) t))"
proof -
  let ?ps = "map (resolvePath (cwd env)) (targetPaths args)"
  have "\<exists>root. findWorkspaceRoot (fs env) (cwd env) (cwd env) = Inr (Some root) \<and>
          validate (fs env) (cwd env) root (''--recursive'' \<in> set args \<or> ''-r'' \<in> set args) ?ps = None"
    using assms
    by (auto simp: rm_main_def Let_def targetPaths_def [symmetric]
        split: sum.splits option.splits if_splits prod.splits)
  then show ?thesis
    by (auto simp: validate_None)
qed

text \<open>
  Claim C3. In a run of the remove command that performs the removal, on a found
  workspace root: if one of the targets, once resolved, is outside the workspace root,
  or does not exist, or is a directory while the recursive flag is absent, the run ends
  (whatever the bound on the recursion) with exit code 1 and the filesystem as it was,
  with no mutating call made. And in any run at all, a mutating call is made only
  after every target passed all three checks.
\<close>

theorem rm_validates_all_before_removing:
  "(operating args \<and> findWorkspaceRoot (fs env) (cwd env) (cwd env) = Inr (Some root) \<and>
    t \<in> set (targetPaths args) \<and>
    \<not> valid_target (fs env) (cwd env) root (''--recursive'' \<in> set args \<or> ''-r'' \<in> set args)
        (path_resolve (cwd env) t)
    \<longrightarrow> (\<exists>r. rm_main depth env args = Some r \<and> exit_code r = 1 \<and> fs_after r = fs env))
   \<and> (rm_main depth env args = Some r' \<and> fs_after r' \<noteq> fs env
    \<longrightarrow> (\<exists>root'. findWorkspaceRoot (fs env) (cwd env) (cwd env) = Inr (Some root') \<and>
          (\<forall>t' \<in> set (targetPaths args).
             valid_target (fs env) (cwd env) root' (''--recursive'' \<in> set args \<or> ''-r'' \<in> set args)
               (path_resolve (cwd env) t'))))"
  using rm_main_invalid [of args env root t depth] rm_main_mutates [of depth env args r']
  by blast

lemma root_of_fs_readonly: "findWorkspaceRoot fs_readonly ''/w'' ''/w'' = Inr (Some ''/w'')"
  by (simp add: findWorkspaceRoot_scan examined_def path_resolve_def isAbsolute_def segs_def
      fs_readonly_def readdirSync_def contains_marker_def is_marker_def)

lemma resolve_a_txt: "resolvePath ''/w'' ''a.txt''
    = \<lparr>original = ''a.txt'', absolute = ''/w/a.txt'', relative = ''a.txt''\<rparr>"
  by (simp add: resolvePath_def Let_def path_resolve_def path_relative_def isAbsolute_def
      segs_def sep_def)

lemma unlink_readonly:
  "unlinkSync fs_readonly ''/w/a.txt''
   = (Some (FsError EACCES ''unlink'' ''/w/a.txt''), fs_readonly\<lparr>calls := [Unlink ''/w/a.txt'']\<rparr>)"
  by (simp add: unlinkSync_def Let_def fs_readonly_def segs_def called_def parent_writable_def)

lemma rm_readonly_run:
  "rm_main depth \<lparr>cwd = ''/w'', fs = fs_readonly\<rparr> [''a.txt'']
   = Some (process_exit 0
       [console_log ''Will remove:'',
        console_log ''  file: a.txt (workspace: a.txt)'',
        console_log (warning @ ''  Proceeding with removal (use --force to skip this message)''),
        failed_to_remove \<lparr>original = ''a.txt'', absolute = ''/w/a.txt'', relative = ''a.txt''\<rparr>
          (FsError EACCES ''unlink'' ''/w/a.txt'')]
       (fs_readonly\<lparr>calls := [Unlink ''/w/a.txt'']\<rparr>))"
proof -
  have v: "validate fs_readonly ''/w'' ''/w'' False
             [\<lparr>original = ''a.txt'', absolute = ''/w/a.txt'', relative = ''a.txt''\<rparr>] = None"
    by (simp add: isWithinWorkspace_def path_resolve_def isAbsolute_def segs_def sep_def
        startsWith_def existsSync_def statSync_def fs_readonly_def)
  have s: "statSync fs_readonly ''/w/a.txt'' = Inr File"
    by (simp add: statSync_def fs_readonly_def segs_def)
  have r: "remove_one depth \<lparr>original = ''a.txt'', absolute = ''/w/a.txt'', relative = ''a.txt''\<rparr>
             fs_readonly
           = Some (fs_readonly\<lparr>calls := [Unlink ''/w/a.txt'']\<rparr>,
               [failed_to_remove \<lparr>original = ''a.txt'', absolute = ''/w/a.txt'', relative = ''a.txt''\<rparr>
                  (FsError EACCES ''unlink'' ''/w/a.txt'')], 0)"
    by (simp add: remove_one_def s unlink_readonly)
  have l: "will_remove fs_readonly ''/w'' ''/w''
             [\<lparr>original = ''a.txt'', absolute = ''/w/a.txt'', relative = ''a.txt''\<rparr>]
           = ([console_log ''  file: a.txt (workspace: a.txt)''], None)"
    by (simp add: s Let_def path_relative_def path_resolve_def isAbsolute_def segs_def sep_def
        or_root_def)
  show ?thesis
    by (simp add: rm_main_def Let_def root_of_fs_readonly startsWith_def resolve_a_txt v r l
        del: validate.simps will_remove.simps)
qed

theorem rm_validates_all_before_removing_witness:
  "operating [''a.txt'', ''../other/b.txt'']
   \<and> findWorkspaceRoot fs_workspace ''/w'' ''/w'' = Inr (Some ''/w'')
   \<and> ''../other/b.txt'' \<in> set (targetPaths [''a.txt'', ''../other/b.txt''])
   \<and> valid_target fs_workspace ''/w'' ''/w'' False (path_resolve ''/w'' ''a.txt'')
   \<and> \<not> valid_target fs_workspace ''/w'' ''/w'' False (path_resolve ''/w'' ''../other/b.txt'')
   \<and> map_option exit_code
        (rm_main 0 \<lparr>cwd = ''/w'', fs = fs_workspace\<rparr> [''a.txt'', ''../other/b.txt'']) = Some 1
   \<and> map_option fs_after
        (rm_main 0 \<lparr>cwd = ''/w'', fs = fs_workspace\<rparr> [''a.txt'', ''../other/b.txt''])
       = Some fs_workspace
   \<and> map_option fs_after (rm_main 0 \<lparr>cwd = ''/w'', fs = fs_readonly\<rparr> [''a.txt''])
       = Some (fs_readonly\<lparr>calls := [Unlink ''/w/a.txt'']\<rparr>)
   \<and> fs_readonly\<lparr>calls := [Unlink ''/w/a.txt'']\<rparr> \<noteq> fs_readonly
   \<and> targetPaths [''a.txt''] = [''a.txt'']
   \<and> valid_target fs_readonly ''/w'' ''/w'' False (path_resolve ''/w'' ''a.txt'')"
proof -
  have a: "operating [''a.txt'', ''../other/b.txt'']" by (simp add: operating_def)
  have b: "''../other/b.txt'' \<in> set (targetPaths [''a.txt'', ''../other/b.txt''])"
    by (simp add: targetPaths_def startsWith_def)
  have c: "valid_target fs_workspace ''/w'' ''/w'' False (path_resolve ''/w'' ''a.txt'')"
    by (simp add: valid_target_def isWithinWorkspace_def path_resolve_def isAbsolute_def segs_def
        sep_def startsWith_def existsSync_def is_dir_def fs_workspace_def)
  have d: "\<not> valid_target fs_workspace ''/w'' ''/w'' False (path_resolve ''/w'' ''../other/b.txt'')"
    by (simp add: valid_target_def isWithinWorkspace_def path_resolve_def isAbsolute_def segs_def
        sep_def startsWith_def)
  have first: "map_option exit_code
        (rm_main 0 \<lparr>cwd = ''/w'', fs = fs_workspace\<rparr> [''a.txt'', ''../other/b.txt'']) = Some 1
      \<and> map_option fs_after
        (rm_main 0 \<lparr>cwd = ''/w'', fs = fs_workspace\<rparr> [''a.txt'', ''../other/b.txt''])
       = Some fs_workspace"
    using a b d root_of_fs_workspace
      rm_validates_all_before_removing [of "[''a.txt'', ''../other/b.txt'']"
        "\<lparr>cwd = ''/w'', fs = fs_workspace\<rparr>" "''/w''" "''../other/b.txt''" 0]
    by auto
  have ne: "fs_readonly\<lparr>calls := [Unlink ''/w/a.txt'']\<rparr> \<noteq> fs_readonly"
    by (simp add: fs_readonly_def)
  have tp: "targetPaths [''a.txt''] = [''a.txt'']" by (simp add: targetPaths_def startsWith_def)
  have "\<exists>root'. findWorkspaceRoot fs_readonly ''/w'' ''/w'' = Inr (Some root') \<and>
          (\<forall>t' \<in> set (targetPaths [''a.txt'']).
             valid_target fs_readonly ''/w'' root' False (path_resolve ''/w'' t'))"
    using ne rm_readonly_run [of 0]
      rm_validates_all_before_removing [of "[''a.txt'']"
        "\<lparr>cwd = ''/w'', fs = fs_readonly\<rparr>" _ _ 0
        "process_exit 0
           [console_log ''Will remove:'',
            console_log ''  file: a.txt (workspace: a.txt)'',
            console_log (warning @ ''  Proceeding with removal (use --force to skip this message)''),
            failed_to_remove \<lparr>original = ''a.txt'', absolute = ''/w/a.txt'', relative = ''a.txt''\<rparr>
              (FsError EACCES ''unlink'' ''/w/a.txt'')]
           (fs_readonly\<lparr>calls := [Unlink ''/w/a.txt'']\<rparr>)"]
    by simp
  then have second: "valid_target fs_readonly ''/w'' ''/w'' False (path_resolve ''/w'' ''a.txt'')"
    using root_of_fs_readonly tp by auto
  show ?thesis
    using a b c d first ne tp second root_of_fs_workspace rm_readonly_run [of 0] by simp
qed

subsection \<open>cd-vs-local\<close>

lemma no_line_cd_help: "filter (\<lambda>m. prefix ''CHANGE_DIR='' (snd m)) cd_help = []"
  by (simp add: cd_help_def console_log_def)

lemma no_line_root_not_found: "filter (\<lambda>m. prefix ''CHANGE_DIR='' (snd m)) root_not_found = []"
  by (simp add: root_not_found_def console_error_def cross_mark_def)

lemma no_line_cd_usage: "filter (\<lambda>m. prefix ''CHANGE_DIR='' (snd m)) cd_usage = []"
  by (simp add: cd_usage_def console_error_def cross_mark_def)

lemma no_line_uncaught: "filter (\<lambda>m. prefix ''CHANGE_DIR='' (snd m)) (uncaught e) = []"
  by (simp add: uncaught_def console_error_def)

lemma no_line_show_root: "filter (\<lambda>m. prefix ''CHANGE_DIR='' (snd m)) (show_root r) = []"
  by (simp add: show_root_def console_log_def file_folder_def)

lemmas no_line = no_line_cd_help no_line_root_not_found no_line_cd_usage no_line_uncaught
  no_line_show_root

lemmas line_defs = hand_off_messages_def startsWith_def console_log_def console_error_def
  cross_mark_def check_mark_def file_folder_def house_def yes_no_def

lemma silent_failure_process_exit [simp]:
  "silent_failure (process_exit c out w) = (c = 0 \<or> hand_off_messages out = [])"
  by (simp add: silent_failure_def)

lemma hands_off_process_exit [simp]:
  "hands_off line (process_exit c out w) = (c \<noteq> 0 \<or> hand_off_messages out = [line])"
  by (simp add: hands_off_def)

lemma cd_main_silent_failure: "silent_failure (cd_main env args)"
  by (simp add: cd_main_def Let_def no_line line_defs split: sum.splits option.splits)

lemma cd_main_failure:
  "exit_code (cd_main env args) \<noteq> 0 \<Longrightarrow> hand_off_messages (printed (cd_main env args)) = []"
  using cd_main_silent_failure [of env args] by (simp add: silent_failure_def)

lemma statSync_is_dir: "statSync w p = Inr n \<Longrightarrow> is_dir w p = isDirectory n"
  by (simp add: statSync_def is_dir_def split: option.splits)

lemma statSync_exists: "existsSync w p \<Longrightarrow> \<exists>n. statSync w p = Inr n"
  by (simp add: statSync_def existsSync_def split: option.splits)

lemma cd_main_hands_off:
  assumes "''--help'' \<notin> set args" "''-h'' \<notin> set args" "''--show-root'' \<notin> set args"
    "''--check'' \<notin> set args" "find (\<lambda>arg. \<not> startsWith arg ''--'') args = Some T"
  shows "hands_off (Stdout, ''CHANGE_DIR='' @ path_resolve (cwd env) T) (cd_main env args)"
  using assms
  by (simp add: cd_main_def Let_def line_defs split: sum.splits option.splits)

lemma cd_main_success:
  assumes "operating args" "find (\<lambda>arg. \<not> startsWith arg ''--'') args = Some T"
    and "exit_code (cd_main env args) = 0"
  shows "hand_off_messages (printed (cd_main env args))
         = [(Stdout, ''CHANGE_DIR='' @ path_resolve (cwd env) T)]"
  using assms cd_main_hands_off [of args T env] by (simp add: operating_def hands_off_def)

lemma cd_main_exit_code:
  assumes "operating args" "find (\<lambda>arg. \<not> startsWith arg ''--'') args = Some T"
  shows "exit_code (cd_main env args) = 0 \<longleftrightarrow>
           T \<noteq> [] \<and>
           (\<exists>root. findWorkspaceRoot (fs env) (cwd env) (cwd env) = Inr (Some root) \<and>
              existsSync (fs env) (path_resolve (cwd env) T) \<and>
              is_dir (fs env) (path_resolve (cwd env) T) \<and>
              isWithinWorkspace (cwd env) (path_resolve (cwd env) T) root)"
proof (cases "findWorkspaceRoot (fs env) (cwd env) (cwd env)")
  case (Inl e)
  then show ?thesis using assms by (simp add: cd_main_def Let_def operating_def)
next
  case (Inr found)
  show ?thesis
  proof (cases found)
    case None
    then show ?thesis using assms Inr by (simp add: cd_main_def Let_def operating_def)
  next
    case (Some root)
    have ne: "root \<noteq> []" using Inr Some findWorkspaceRoot_nonempty by blast
    show ?thesis
    proof (cases "existsSync (fs env) (path_resolve (cwd env) T)")
      case False
      then show ?thesis using assms Inr Some ne by (simp add: cd_main_def Let_def operating_def)
    next
      case True
      then obtain n where n: "statSync (fs env) (path_resolve (cwd env) T) = Inr n"
        using statSync_exists by blast
      show ?thesis
        using assms Inr Some ne True n statSync_is_dir [OF n]
        by (simp add: cd_main_def Let_def operating_def)
    qed
  qed
qed

lemma lines_of_plain: "newline_free s \<Longrightarrow> lines_of s = [s]"
  by (induction s) (auto simp: newline_free_def)

lemma change_dir_lines_plain:
  "list_all (\<lambda>m. newline_free (snd m)) out \<Longrightarrow> change_dir_lines out = hand_off_messages out"
  by (induction out)
    (auto simp: change_dir_lines_def output_lines_def hand_off_messages_def lines_of_plain)

lemma newline_free_append [simp]:
  "newline_free (a @ b) \<longleftrightarrow> newline_free a \<and> newline_free b"
  by (auto simp: newline_free_def)

lemma newline_free_Cons [simp]:
  "newline_free (c # s) \<longleftrightarrow> c \<noteq> CHR 0x0A \<and> newline_free s"
  by (auto simp: newline_free_def)

lemma newline_free_Nil [simp]: "newline_free []"
  by (simp add: newline_free_def)

lemma newline_free_from_segs:
  "\<forall>s \<in> set ss. newline_free s \<Longrightarrow> newline_free (from_segs ss)"
  by (induction ss rule: from_segs.induct) simp_all

lemma newline_free_splitSep:
  "newline_free p \<Longrightarrow> \<forall>s \<in> set (splitSep p). newline_free s"
  by (induction p) (auto split: list.splits)

lemma newline_free_segs: "newline_free p \<Longrightarrow> \<forall>s \<in> set (segs p). newline_free s"
  using newline_free_splitSep by (auto simp: segs_def)

lemma newline_free_normalized:
  assumes "newline_free p"
  shows "\<forall>s \<in> set (normalizeString [] (segs p)). newline_free s"
proof (rule normalizeString_keeps)
  show "\<forall>s \<in> set []. newline_free s" by simp
  show "\<forall>s \<in> set (segs p). s \<noteq> ''.'' \<longrightarrow> s \<noteq> ''..'' \<longrightarrow> newline_free s"
    using newline_free_segs [OF assms] by blast
qed

lemma newline_free_path_resolve:
  assumes "newline_free wd" "newline_free p"
  shows "newline_free (path_resolve wd p)"
proof -
  have "newline_free (if isAbsolute p then p else wd @ sep @ p)"
    using assms by (simp add: sep_def)
  then show ?thesis
    unfolding path_resolve_def by (intro newline_free_from_segs newline_free_normalized)
qed

lemma newline_free_examined:
  assumes "newline_free p" "a \<in> set (examined p)"
  shows "newline_free a"
proof -
  from assms(2) obtain qs where a: "a = from_segs qs" and "qs \<in> set (prefixes (segs p))"
    by (auto simp: examined_def dest: list.set_sel(2) [rotated])
  then have "set qs \<subseteq> set (segs p)" by (auto dest: set_mono_prefix)
  then show ?thesis
    unfolding a using newline_free_segs [OF assms(1)] by (intro newline_free_from_segs) blast
qed

lemma newline_free_errno_text: "newline_free (errno_text e)"
  by (cases e) simp_all

lemma newline_free_uncaught:
  "newline_free p \<Longrightarrow> list_all (\<lambda>m. newline_free (snd m)) (uncaught (FsError e call p))
     \<longleftrightarrow> newline_free call"
  by (simp add: uncaught_def console_error_def newline_free_errno_text)

lemma scan_error_member:
  "scan w as = Inl e \<Longrightarrow> \<exists>a \<in> set as. readdirSync w a = Inl e"
  by (induction as) (auto split: sum.splits if_splits)

lemma readdirSync_error: "readdirSync w a = Inl e \<Longrightarrow> \<exists>c. e = FsError c ''scandir'' a"
  by (auto simp: readdirSync_def split: option.splits node.splits if_splits)

lemma statSync_error: "statSync w a = Inl e \<Longrightarrow> \<exists>c. e = FsError c ''stat'' a"
  by (auto simp: statSync_def split: option.splits)

lemma findWorkspaceRoot_error_plain:
  assumes "newline_free wd" "findWorkspaceRoot w wd wd = Inl e"
  shows "list_all (\<lambda>m. newline_free (snd m)) (uncaught e)"
proof -
  have "scan w (examined (path_resolve wd wd)) = Inl e"
    using assms(2) by (simp add: findWorkspaceRoot_scan)
  from scan_error_member [OF this] obtain a where
    a: "a \<in> set (examined (path_resolve wd wd))" and r: "readdirSync w a = Inl e"
    by blast
  have "newline_free (path_resolve wd wd)"
    using assms(1) by (simp add: newline_free_path_resolve)
  then have "newline_free a"
    using a by (rule newline_free_examined)
  moreover obtain c where "e = FsError c ''scandir'' a"
    using readdirSync_error [OF r] by blast
  ultimately show ?thesis by (simp add: newline_free_uncaught)
qed

lemma findWorkspaceRoot_plain:
  assumes "newline_free wd" "findWorkspaceRoot w wd wd = Inr (Some root)"
  shows "newline_free root"
proof -
  have "root \<in> set (examined (path_resolve wd wd))"
    using assms(2) by (simp add: findWorkspaceRoot_scan scan_member)
  moreover have "newline_free (path_resolve wd wd)"
    using assms(1) by (simp add: newline_free_path_resolve)
  ultimately show ?thesis
    by (rule newline_free_examined [rotated])
qed

lemma statSync_error_plain:
  assumes "newline_free p" "statSync w p = Inl e"
  shows "list_all (\<lambda>m. newline_free (snd m)) (uncaught e)"
proof -
  obtain c where "e = FsError c ''stat'' p"
    using statSync_error [OF assms(2)] by blast
  then show ?thesis using assms(1) by (simp add: newline_free_uncaught)
qed

lemma newline_free_relative_segs:
  "\<forall>s \<in> set bs. newline_free s \<Longrightarrow> \<forall>s \<in> set (relative_segs as bs). newline_free s"
  by (induction as bs rule: relative_segs.induct) auto

lemma newline_free_join_segs:
  "\<forall>s \<in> set ss. newline_free s \<Longrightarrow> newline_free (join_segs ss)"
  by (induction ss rule: join_segs.induct) (simp_all add: sep_def)

lemma newline_free_path_relative:
  assumes "newline_free wd" "newline_free to"
  shows "newline_free (path_relative wd from to)"
proof -
  have "newline_free (path_resolve wd to)"
    using assms by (rule newline_free_path_resolve)
  then have "\<forall>s \<in> set (segs (path_resolve wd to)). newline_free s"
    by (rule newline_free_segs)
  then have "\<forall>s \<in> set (relative_segs (segs (path_resolve wd from)) (segs (path_resolve wd to))).
               newline_free s"
    by (rule newline_free_relative_segs)
  then show ?thesis
    unfolding path_relative_def by (rule newline_free_join_segs)
qed

lemma plain_cd_help: "list_all (\<lambda>m. newline_free (snd m)) cd_help"
  by (simp add: cd_help_def console_log_def)

lemma plain_root_not_found: "list_all (\<lambda>m. newline_free (snd m)) root_not_found"
  by (simp add: root_not_found_def console_error_def cross_mark_def)

lemma plain_cd_usage: "list_all (\<lambda>m. newline_free (snd m)) cd_usage"
  by (simp add: cd_usage_def console_error_def cross_mark_def)

lemma plain_show_root: "newline_free r \<Longrightarrow> list_all (\<lambda>m. newline_free (snd m)) (show_root r)"
  by (simp add: show_root_def console_log_def file_folder_def)

lemma plain_process_exit [simp]:
  "plain (process_exit c out w) = list_all (\<lambda>m. newline_free (snd m)) out"
  by (simp add: plain_def process_exit_def)

lemma cd_main_plain:
  assumes "plain_invocation env args"
  shows "plain (cd_main env args)"
proof -
  have wd: "newline_free (cwd env)" using assms by (simp add: plain_invocation_def)
  note root = findWorkspaceRoot_plain [OF wd]
  note err = findWorkspaceRoot_error_plain [OF wd]
  show ?thesis
  proof (cases "find (\<lambda>arg. \<not> startsWith arg ''--'') args")
    case None
    then show ?thesis
      using root err
      by (simp add: cd_main_def Let_def plain_cd_help plain_root_not_found plain_cd_usage
          plain_show_root split: sum.splits option.splits)
  next
    case (Some T)
    then have "newline_free T" using assms by (simp add: plain_invocation_def)
    then have abs: "newline_free (path_resolve (cwd env) T)"
      using wd by (intro newline_free_path_resolve)
    note rel = newline_free_path_relative [OF wd abs]
    note st = statSync_error_plain [OF abs]
    show ?thesis
      using root err Some abs rel st
      by (simp add: cd_main_def Let_def plain_cd_help plain_root_not_found plain_cd_usage
          plain_show_root console_log_def console_error_def cross_mark_def check_mark_def
          file_folder_def house_def yes_no_def or_root_def
          split: sum.splits option.splits)
  qed
qed

lemma cd_main_lines:
  "plain_invocation env args \<Longrightarrow>
   change_dir_lines (printed (cd_main env args)) = hand_off_messages (printed (cd_main env args))"
  using cd_main_plain [of env args] by (simp add: plain_def change_dir_lines_plain)

lemma crafted_missing_run:
  "cd_main \<lparr>cwd = ''/w'', fs = fs_workspace\<rparr> [crafted_target]
   = \<lparr>exit_code = 1,
      printed = [(Stderr, cross_mark @ '' Directory does not exist: /w/nope'' @ [CHR 0x0A] @
                   ''CHANGE_DIR=/etc'')],
      fs_after = fs_workspace\<rparr>"
proof -
  have f: "find (\<lambda>arg. \<not> startsWith arg ''--'') [crafted_target] = Some crafted_target"
    by (simp add: startsWith_def crafted_target_def)
  have ne: "crafted_target \<noteq> []" by (simp add: crafted_target_def)
  have p: "path_resolve ''/w'' crafted_target = ''/w/nope'' @ [CHR 0x0A] @ ''CHANGE_DIR=/etc''"
    by (simp add: path_resolve_def isAbsolute_def segs_def sep_def crafted_target_def)
  have m: "\<not> existsSync fs_workspace (''/w/nope'' @ [CHR 0x0A] @ ''CHANGE_DIR=/etc'')"
    by (simp add: existsSync_def fs_workspace_def segs_def)
  have fl: "''--help'' \<notin> set [crafted_target]" "''-h'' \<notin> set [crafted_target]"
    "''--show-root'' \<notin> set [crafted_target]" "''--check'' \<notin> set [crafted_target]"
    by (simp_all add: crafted_target_def)
  show ?thesis
    using f ne m fl p root_of_fs_workspace
    by (simp add: cd_main_def Let_def process_exit_def console_error_def
        del: set_simps)
qed

lemma crafted_success_run:
  "cd_main \<lparr>cwd = ''/w'', fs = fs_crafted\<rparr> [crafted_name]
   = \<lparr>exit_code = 0,
      printed =
        [(Stdout, check_mark @ '' cd '' @ crafted_name),
         (Stdout, file_folder @ '' /w/'' @ crafted_name),
         (Stdout, house @ '' Workspace: '' @ crafted_name),
         (Stdout, ''CHANGE_DIR=/w/'' @ crafted_name)],
      fs_after = fs_crafted\<rparr>"
proof -
  have f: "find (\<lambda>arg. \<not> startsWith arg ''--'') [crafted_name] = Some crafted_name"
    by (simp add: startsWith_def crafted_name_def)
  have ne: "crafted_name \<noteq> []" by (simp add: crafted_name_def)
  have root: "findWorkspaceRoot fs_crafted ''/w'' ''/w'' = Inr (Some ''/w'')"
    by (simp add: findWorkspaceRoot_scan examined_def path_resolve_def isAbsolute_def segs_def
        fs_crafted_def readdirSync_def contains_marker_def is_marker_def)
  have p: "path_resolve ''/w'' crafted_name = ''/w/'' @ crafted_name"
    by (simp add: path_resolve_def isAbsolute_def segs_def sep_def crafted_name_def)
  have e: "existsSync fs_crafted (''/w/'' @ crafted_name)"
    by (simp add: existsSync_def fs_crafted_def segs_def crafted_name_def)
  have s: "statSync fs_crafted (''/w/'' @ crafted_name) = Inr (Dir True True [])"
    by (simp add: statSync_def fs_crafted_def segs_def crafted_name_def)
  have i: "isWithinWorkspace ''/w'' (''/w/'' @ crafted_name) ''/w''"
    by (simp add: isWithinWorkspace_def path_resolve_def isAbsolute_def segs_def sep_def
        startsWith_def crafted_name_def)
  have r1: "path_relative ''/w'' ''/w'' (''/w/'' @ crafted_name) = crafted_name"
    by (simp add: path_relative_def path_resolve_def isAbsolute_def segs_def sep_def
        crafted_name_def)
  have nr: "or_root crafted_name = crafted_name"
    by (simp add: or_root_def crafted_name_def)
  have fl: "''--help'' \<notin> set [crafted_name]" "''-h'' \<notin> set [crafted_name]"
    "''--show-root'' \<notin> set [crafted_name]" "''--check'' \<notin> set [crafted_name]"
    by (simp_all add: crafted_name_def)
  show ?thesis
    using f ne root e s i fl p r1 nr
    by (simp add: cd_main_def Let_def process_exit_def console_log_def
        del: set_simps)
qed

text \<open>
  Claim C6, as the code has it. A hand-off line is a line of the output that begins with
  \<open>CHANGE_DIR=\<close>. Take an invocation of the change-directory command in which neither
  the working directory nor the target holds a newline character. If it ends with a
  nonzero exit code, the output has no hand-off line. If it performs the change of
  directory for the target \<open>T\<close> and ends with exit code 0, the output has exactly one
  hand-off line, on the standard output, and it is \<open>CHANGE_DIR=\<close> followed, with nothing
  around it, by the resolved absolute path of \<open>T\<close>. Such a run ends with exit code 0
  exactly when the workspace root is found and the resolved target exists, is a
  directory and is inside the root: with no root, a missing path, a path that is not a
  directory or a path outside the root, it fails and prints no such line.
\<close>

theorem cd_hand_off_line:
  assumes "plain_invocation env args"
  shows "(exit_code (cd_main env args) \<noteq> 0 \<longrightarrow> change_dir_lines (printed (cd_main env args)) = [])
   \<and> (operating args \<and> find (\<lambda>arg. \<not> startsWith arg ''--'') args = Some T \<longrightarrow>
        (exit_code (cd_main env args) = 0 \<longrightarrow>
           change_dir_lines (printed (cd_main env args))
           = [(Stdout, ''CHANGE_DIR='' @ path_resolve (cwd env) T)])
      \<and> (exit_code (cd_main env args) = 0 \<longleftrightarrow>
           T \<noteq> [] \<and>
           (\<exists>root. findWorkspaceRoot (fs env) (cwd env) (cwd env) = Inr (Some root) \<and>
              existsSync (fs env) (path_resolve (cwd env) T) \<and>
              is_dir (fs env) (path_resolve (cwd env) T) \<and>
              isWithinWorkspace (cwd env) (path_resolve (cwd env) T) root)))"
  unfolding cd_main_lines [OF assms]
  using cd_main_failure [of env args] cd_main_success [of args T env]
    cd_main_exit_code [of args T env]
  by blast

theorem cd_hand_off_line_witness:
  "plain_invocation \<lparr>cwd = ''/w/src'', fs = fs_workspace\<rparr> [''lib'']
   \<and> plain_invocation \<lparr>cwd = ''/w/src'', fs = fs_workspace\<rparr> [''../../other'']
   \<and> operating [''lib''] \<and> operating [''../../other'']
   \<and> find (\<lambda>arg. \<not> startsWith arg ''--'') [''lib''] = Some ''lib''
   \<and> find (\<lambda>arg. \<not> startsWith arg ''--'') [''../../other''] = Some ''../../other''
   \<and> findWorkspaceRoot fs_workspace ''/w/src'' ''/w/src'' = Inr (Some ''/w'')
   \<and> path_resolve ''/w/src'' ''lib'' = ''/w/src/lib''
   \<and> path_resolve ''/w/src'' ''../../other'' = ''/other''
   \<and> exit_code (cd_main \<lparr>cwd = ''/w/src'', fs = fs_workspace\<rparr> [''lib'']) = 0
   \<and> change_dir_lines (printed (cd_main \<lparr>cwd = ''/w/src'', fs = fs_workspace\<rparr> [''lib'']))
       = [(Stdout, ''CHANGE_DIR=/w/src/lib'')]
   \<and> exit_code (cd_main \<lparr>cwd = ''/w/src'', fs = fs_workspace\<rparr> [''../../other'']) \<noteq> 0
   \<and> change_dir_lines (printed (cd_main \<lparr>cwd = ''/w/src'', fs = fs_workspace\<rparr> [''../../other'']))
       = []"
proof -
  let ?env = "\<lparr>cwd = ''/w/src'', fs = fs_workspace\<rparr>"
  have f: "find (\<lambda>arg. \<not> startsWith arg ''--'') [''lib''] = Some ''lib''"
    "find (\<lambda>arg. \<not> startsWith arg ''--'') [''../../other''] = Some ''../../other''"
    by (simp_all add: startsWith_def)
  have pl: "plain_invocation ?env [''lib'']" "plain_invocation ?env [''../../other'']"
    by (simp_all add: plain_invocation_def f newline_free_def)
  have o: "operating [''lib'']" "operating [''../../other'']" by (simp_all add: operating_def)
  have root: "findWorkspaceRoot fs_workspace ''/w/src'' ''/w/src'' = Inr (Some ''/w'')"
    by (simp add: findWorkspaceRoot_scan examined_def path_resolve_def isAbsolute_def segs_def
        fs_workspace_def readdirSync_def contains_marker_def is_marker_def endsWith_def
        suffix_to_prefix)
  have p: "path_resolve ''/w/src'' ''lib'' = ''/w/src/lib''"
    "path_resolve ''/w/src'' ''../../other'' = ''/other''"
    by (simp_all add: path_resolve_def isAbsolute_def segs_def sep_def)
  have good: "existsSync fs_workspace ''/w/src/lib''" "is_dir fs_workspace ''/w/src/lib''"
    "isWithinWorkspace ''/w/src'' ''/w/src/lib'' ''/w''"
    by (simp_all add: existsSync_def is_dir_def fs_workspace_def segs_def isWithinWorkspace_def
        path_resolve_def isAbsolute_def sep_def startsWith_def)
  have bad: "\<not> isWithinWorkspace ''/w/src'' ''/other'' ''/w''"
    by (simp add: isWithinWorkspace_def path_resolve_def isAbsolute_def segs_def sep_def
        startsWith_def)
  show ?thesis
    using pl o f root p good bad
      cd_hand_off_line [OF pl(1), of "''lib''"]
      cd_hand_off_line [OF pl(2), of "''../../other''"]
    by simp
qed

text \<open>
  The claim as written fails when a path holds a newline character, since the messages
  print the paths as they are. With the missing target \<open>crafted_target\<close> the run fails
  with exit code 1, and the second line of its error message is the hand-off line
  \<open>CHANGE_DIR=/etc\<close>. With the directory \<open>crafted_name\<close> of the workspace as the target
  the run succeeds, and its output has five hand-off lines, none of which names the
  resolved target.
\<close>

theorem cd_hand_off_line_counterexample:
  "exit_code (cd_main \<lparr>cwd = ''/w'', fs = fs_workspace\<rparr> [crafted_target]) = 1
   \<and> \<not> existsSync fs_workspace (path_resolve ''/w'' crafted_target)
   \<and> change_dir_lines (printed (cd_main \<lparr>cwd = ''/w'', fs = fs_workspace\<rparr> [crafted_target]))
       = [(Stderr, ''CHANGE_DIR=/etc'')]
   \<and> operating [crafted_name]
   \<and> find (\<lambda>arg. \<not> startsWith arg ''--'') [crafted_name] = Some crafted_name
   \<and> exit_code (cd_main \<lparr>cwd = ''/w'', fs = fs_crafted\<rparr> [crafted_name]) = 0
   \<and> change_dir_lines (printed (cd_main \<lparr>cwd = ''/w'', fs = fs_crafted\<rparr> [crafted_name]))
       = [(Stdout, ''CHANGE_DIR=y''), (Stdout, ''CHANGE_DIR=y''), (Stdout, ''CHANGE_DIR=y''),
          (Stdout, ''CHANGE_DIR=/w/x''), (Stdout, ''CHANGE_DIR=y'')]"
proof (intro conjI)
  show "exit_code (cd_main \<lparr>cwd = ''/w'', fs = fs_workspace\<rparr> [crafted_target]) = 1"
    by (simp add: crafted_missing_run)
  show "\<not> existsSync fs_workspace (path_resolve ''/w'' crafted_target)"
    by (simp add: path_resolve_def isAbsolute_def segs_def sep_def crafted_target_def
        existsSync_def fs_workspace_def)
  show "change_dir_lines (printed (cd_main \<lparr>cwd = ''/w'', fs = fs_workspace\<rparr> [crafted_target]))
        = [(Stderr, ''CHANGE_DIR=/etc'')]"
    unfolding crafted_missing_run
    by (simp add: change_dir_lines_def output_lines_def startsWith_def cross_mark_def)
  show "operating [crafted_name]"
    by (simp add: operating_def crafted_name_def)
  show "find (\<lambda>arg. \<not> startsWith arg ''--'') [crafted_name] = Some crafted_name"
    by (simp add: startsWith_def crafted_name_def)
  show "exit_code (cd_main \<lparr>cwd = ''/w'', fs = fs_crafted\<rparr> [crafted_name]) = 0"
    by (simp add: crafted_success_run)
  show "change_dir_lines (printed (cd_main \<lparr>cwd = ''/w'', fs = fs_crafted\<rparr> [crafted_name]))
        = [(Stdout, ''CHANGE_DIR=y''), (Stdout, ''CHANGE_DIR=y''), (Stdout, ''CHANGE_DIR=y''),
           (Stdout, ''CHANGE_DIR=/w/x''), (Stdout, ''CHANGE_DIR=y'')]"
    unfolding crafted_success_run
    by (simp add: change_dir_lines_def output_lines_def startsWith_def
        check_mark_def file_folder_def house_def crafted_name_def)
qed

subsection \<open>A failed move\<close>

text \<open>
  Claim C10. In a run of the move command that performs the move, with the source
  present and both ends inside the workspace: when the directory of the destination
  does not exist, \<open>mkdirSync\<close> makes it (with the directories missing above it) before
  \<open>renameSync\<close> is tried; if \<open>renameSync\<close> then throws, the run ends with exit code 1 on
  the filesystem that \<open>mkdirSync\<close> left: the new directory is there, and the tree is not
  the one the run started from.
\<close>

theorem mv_failure_keeps_created_directories:
  assumes "operating args" "nonFlagArgs args = [s, d]"
    and "findWorkspaceRoot (fs env) (cwd env) (cwd env) = Inr (Some root)"
    and "existsSync (fs env) (path_resolve (cwd env) s)"
    and "isWithinWorkspace (cwd env) (path_resolve (cwd env) s) root"
    and "isWithinWorkspace (cwd env) (path_resolve (cwd env) d) root"
    and "\<not> existsSync (fs env) (path_dirname (path_resolve (cwd env) d))"
    and "mkdirSync (fs env) (path_dirname (path_resolve (cwd env) d)) = (None, w1)"
    and "renameSync w1 (path_resolve (cwd env) s) (path_resolve (cwd env) d) = (Some e, w2)"
  shows "exit_code (mv_main env args) = 1
       \<and> tree (fs_after (mv_main env args)) = tree w1
       \<and> existsSync (fs_after (mv_main env args)) (path_dirname (path_resolve (cwd env) d))
       \<and> tree (fs_after (mv_main env args)) \<noteq> tree (fs env)"
proof -
  have r: "exit_code (mv_main env args) = 1" "fs_after (mv_main env args) = w2"
    using mv_main_failed_rename [OF assms] by simp_all
  have t: "tree w2 = tree w1" using assms(9) by (rule renameSync_failure_tree)
  have "existsSync w1 (path_dirname (path_resolve (cwd env) d))"
    using assms(8) by (rule mkdirSync_exists)
  then have ex: "existsSync w2 (path_dirname (path_resolve (cwd env) d))"
    using t by (simp add: existsSync_def)
  then have "tree w2 \<noteq> tree (fs env)"
    using assms(7) by (auto simp: existsSync_def)
  then show ?thesis using r t ex by simp
qed

theorem mv_failure_keeps_created_directories_witness:
  "operating [''src'', ''src/deep/er/moved'']
   \<and> nonFlagArgs [''src'', ''src/deep/er/moved''] = [''src'', ''src/deep/er/moved'']
   \<and> findWorkspaceRoot fs_workspace ''/w'' ''/w'' = Inr (Some ''/w'')
   \<and> path_resolve ''/w'' ''src'' = ''/w/src''
   \<and> path_resolve ''/w'' ''src/deep/er/moved'' = ''/w/src/deep/er/moved''
   \<and> path_dirname ''/w/src/deep/er/moved'' = ''/w/src/deep/er''
   \<and> existsSync fs_workspace ''/w/src''
   \<and> isWithinWorkspace ''/w'' ''/w/src'' ''/w''
   \<and> isWithinWorkspace ''/w'' ''/w/src/deep/er/moved'' ''/w''
   \<and> \<not> existsSync fs_workspace ''/w/src/deep/er''
   \<and> fst (mkdirSync fs_workspace ''/w/src/deep/er'') = None
   \<and> fst (renameSync (snd (mkdirSync fs_workspace ''/w/src/deep/er''))
            ''/w/src'' ''/w/src/deep/er/moved'')
       = Some (FsError EINVAL ''rename'' ''/w/src'')
   \<and> exit_code (mv_main \<lparr>cwd = ''/w'', fs = fs_workspace\<rparr> [''src'', ''src/deep/er/moved'']) = 1
   \<and> existsSync (fs_after (mv_main \<lparr>cwd = ''/w'', fs = fs_workspace\<rparr>
         [''src'', ''src/deep/er/moved''])) ''/w/src/deep/er''
   \<and> tree (fs_after (mv_main \<lparr>cwd = ''/w'', fs = fs_workspace\<rparr>
         [''src'', ''src/deep/er/moved''])) \<noteq> tree fs_workspace"
  using mv_into_itself_facts root_of_fs_workspace mkdir_deep rename_into_itself
    mv_failure_keeps_created_directories [of "[''src'', ''src/deep/er/moved'']" "''src''"
      "''src/deep/er/moved''" "\<lparr>cwd = ''/w'', fs = fs_workspace\<rparr>" "''/w''"
      "snd (mkdirSync fs_workspace ''/w/src/deep/er'')" "FsError EINVAL ''rename'' ''/w/src''"
      "(snd (mkdirSync fs_workspace ''/w/src/deep/er''))
         \<lparr>calls := [Mkdir ''/w/src/deep/er'', Rename ''/w/src'' ''/w/src/deep/er/moved'']\<rparr>"]
  by (simp add: fs_workspace_def)

subsection \<open>A failed removal\<close>

text \<open>
  Claim C5 fails on the code. \<open>/w/a.txt\<close> is a file of the workspace \<open>/w\<close>, and \<open>/w\<close> does
  not allow the removal of its entries. \<open>rm-vs-local a.txt\<close>, run in \<open>/w\<close>, passes the
  validation, fails in \<open>unlinkSync\<close>, reports the failure on the error stream, leaves the
  file where it was, and ends with exit code 0, whatever the bound on the recursion.
\<close>

theorem rm_failed_removal_exit_code:
  "map_option exit_code (rm_main depth \<lparr>cwd = ''/w'', fs = fs_readonly\<rparr> [''a.txt'']) = Some 0
   \<and> map_option (\<lambda>r. tree (fs_after r)) (rm_main depth \<lparr>cwd = ''/w'', fs = fs_readonly\<rparr> [''a.txt''])
       = Some (tree fs_readonly)
   \<and> map_option (\<lambda>r. filter (\<lambda>m. fst m = Stderr) (printed r))
        (rm_main depth \<lparr>cwd = ''/w'', fs = fs_readonly\<rparr> [''a.txt''])
       = Some [console_error (cross_mark @ '' Failed to remove a.txt: '' @
                 message (FsError EACCES ''unlink'' ''/w/a.txt''))]"
  by (simp add: rm_readonly_run failed_to_remove_def console_log_def console_error_def)

section \<open>Recursive removal\<close>

subsection \<open>What a successful call has done\<close>

lemma unlinkSync_calls: "unlinkSync w p = (r, w') \<Longrightarrow> calls w' = calls w @ [Unlink p]"
  by (auto simp: unlinkSync_def Let_def called_def split: option.splits node.splits if_splits)

lemma rmdirSync_calls: "rmdirSync w p = (r, w') \<Longrightarrow> calls w' = calls w @ [Rmdir p]"
  by (auto simp: rmdirSync_def Let_def called_def split: option.splits node.splits if_splits)

lemma forEach_calls:
  assumes "\<And>x w1 r w2. body x w1 = Some (r, w2) \<Longrightarrow> \<exists>ops. calls w2 = calls w1 @ ops"
  shows "forEach body xs w = Some (r, w') \<Longrightarrow> \<exists>ops. calls w' = calls w @ ops"
proof (induction xs arbitrary: w)
  case Nil
  then show ?case by simp
next
  case (Cons x xs)
  show ?case
  proof (cases "body x w")
    case None
    then show ?thesis using Cons.prems by simp
  next
    case (Some res)
    obtain r1 w1 where res: "res = (r1, w1)" by (cases res)
    obtain ops1 where o1: "calls w1 = calls w @ ops1"
      using assms Some res by blast
    show ?thesis
    proof (cases r1)
      case None
      then have "forEach body xs w1 = Some (r, w')"
        using Cons.prems Some res by simp
      then obtain ops2 where "calls w' = calls w1 @ ops2"
        using Cons.IH by blast
      then show ?thesis using o1 by simp
    next
      case (Some e)
      then have "w' = w1" using Cons.prems \<open>body x w = Some res\<close> res by simp
      then show ?thesis using o1 by blast
    qed
  qed
qed

lemma removeRecursively_calls:
  "removeRecursively depth p w = Some (r, w') \<Longrightarrow> \<exists>ops. calls w' = calls w @ ops"
proof (induction depth arbitrary: p w r w')
  case 0
  then show ?case by simp
next
  case (Suc depth)
  show ?case
  proof (cases "statSync w p")
    case (Inl e)
    then show ?thesis using Suc.prems by auto
  next
    case (Inr stats)
    show ?thesis
    proof (cases "isDirectory stats")
      case False
      then show ?thesis using Suc.prems Inr unlinkSync_calls by auto
    next
      case True
      show ?thesis
      proof (cases "readdirSync w p")
        case (Inl e)
        then show ?thesis using Suc.prems Inr True by auto
      next
        case files: (Inr files)
        let ?loop = "forEach (\<lambda>file. removeRecursively depth (path_join p file)) files w"
        show ?thesis
        proof (cases ?loop)
          case None
          then show ?thesis using Suc.prems Inr True files by simp
        next
          case (Some res)
          obtain r1 w1 where res: "res = (r1, w1)" by (cases res)
          have "\<exists>ops. calls w1 = calls w @ ops"
            using forEach_calls [of "\<lambda>file. removeRecursively depth (path_join p file)"]
              Suc.IH Some res by blast
          then obtain ops1 where o1: "calls w1 = calls w @ ops1" by blast
          show ?thesis
          proof (cases r1)
            case None
            then have "rmdirSync w1 p = (r, w')"
              using Suc.prems Inr True files Some res by simp
            then show ?thesis using o1 rmdirSync_calls by fastforce
          next
            case (Some e)
            then have "w' = w1"
              using Suc.prems Inr True files \<open>?loop = Some res\<close> res by simp
            then show ?thesis using o1 by blast
          qed
        qed
      qed
    qed
  qed
qed

lemma removeRecursively_last:
  assumes "removeRecursively depth p w = Some (None, w')"
  shows "\<exists>ops. calls w' = calls w @ ops \<and> (Unlink p \<in> set ops \<or> Rmdir p \<in> set ops)"
proof -
  obtain d where d: "depth = Suc d" using assms by (cases depth) simp_all
  consider (plain) "unlinkSync w p = (None, w')"
    | (dir) w1 ops1 where "calls w1 = calls w @ ops1" "rmdirSync w1 p = (None, w')"
  proof (cases "statSync w p")
    case (Inl e)
    then show ?thesis using assms d by simp
  next
    case (Inr stats)
    show ?thesis
    proof (cases "isDirectory stats")
      case False
      then have "unlinkSync w p = (None, w')" using assms d Inr by simp
      then show ?thesis using plain by simp
    next
      case True
      show ?thesis
      proof (cases "readdirSync w p")
        case (Inl e)
        then show ?thesis using assms d Inr True by simp
      next
        case files: (Inr files)
        let ?loop = "forEach (\<lambda>f. removeRecursively d (path_join p f)) files w"
        obtain w1 where l: "?loop = Some (None, w1)" and r: "rmdirSync w1 p = (None, w')"
          using assms d Inr True files
          by (auto split: option.splits prod.splits)
        have "\<exists>ops. calls w1 = calls w @ ops"
          using forEach_calls [of "\<lambda>f. removeRecursively d (path_join p f)"]
            removeRecursively_calls l by blast
        then show ?thesis using dir r by blast
      qed
    qed
  qed
  then show ?thesis
  proof cases
    case plain
    then have "calls w' = calls w @ [Unlink p]" by (rule unlinkSync_calls)
    then show ?thesis by (intro exI [of _ "[Unlink p]"]) simp
  next
    case dir
    then have "calls w' = calls w @ (ops1 @ [Rmdir p])"
      using rmdirSync_calls by fastforce
    then show ?thesis by (intro exI [of _ "ops1 @ [Rmdir p]"]) simp
  qed
qed

lemma forEach_each:
  assumes "forEach (\<lambda>file. removeRecursively depth (path_join p file)) files w = Some (None, w')"
  shows "\<exists>ops. calls w' = calls w @ ops \<and>
           (\<forall>file \<in> set files. Unlink (path_join p file) \<in> set ops \<or>
                                 Rmdir (path_join p file) \<in> set ops)"
  using assms
proof (induction files arbitrary: w)
  case Nil
  then show ?case by simp
next
  case (Cons f files)
  obtain w1 where first: "removeRecursively depth (path_join p f) w = Some (None, w1)"
    and rest: "forEach (\<lambda>file. removeRecursively depth (path_join p file)) files w1 = Some (None, w')"
    using Cons.prems by (auto split: option.splits prod.splits)
  obtain ops1 where o1: "calls w1 = calls w @ ops1"
    and m1: "Unlink (path_join p f) \<in> set ops1 \<or> Rmdir (path_join p f) \<in> set ops1"
    using removeRecursively_last [OF first] by blast
  obtain ops2 where o2: "calls w' = calls w1 @ ops2"
    and m2: "\<forall>g \<in> set files. Unlink (path_join p g) \<in> set ops2 \<or> Rmdir (path_join p g) \<in> set ops2"
    using Cons.IH [OF rest] by blast
  show ?case
    using o1 o2 m1 m2 by (intro exI [of _ "ops1 @ ops2"]) auto
qed

lemma lookup_deleted: "lookup (update_at ds (del_entry name) t) (ds @ name # q) = None"
proof (induction ds "del_entry name" t rule: update_at.induct)
  case (1 n)
  then show ?case by (cases n) (auto split: option.splits dest: map_of_SomeD)
next
  case (2 s ss)
  then show ?case by simp
next
  case (3 s ss r w es)
  have "map_of (map (\<lambda>(k, c). if k = s then (k, update_at ss (del_entry name) c) else (k, c)) es) s
        = map_option (update_at ss (del_entry name)) (map_of es s)"
    by (induction es) auto
  then show ?case using 3
    by (auto split: option.splits dest: map_of_SomeD)
qed

lemma lookup_remove_at:
  assumes "ss \<noteq> []"
  shows "lookup (remove_at ss t) (ss @ q) = None"
proof -
  have e: "ss @ q = butlast ss @ last ss # q"
    using assms by (metis append_butlast_last_id append_Cons append_Nil append_assoc)
  show ?thesis
    unfolding remove_at_def e by (rule lookup_deleted)
qed

lemma rmdirSync_absent: "rmdirSync w p = (None, w') \<Longrightarrow> lookup (tree w') (segs p @ q) = None"
  by (auto simp: rmdirSync_def Let_def called_def lookup_remove_at
      split: option.splits node.splits if_splits)

lemma removeRecursively_directory:
  assumes "removeRecursively depth p w = Some (None, w')" "readdirSync w p = Inr files"
  shows "(\<exists>ops. calls w' = calls w @ ops @ [Rmdir p] \<and>
            (\<forall>file \<in> set files. Unlink (path_join p file) \<in> set ops \<or>
                                  Rmdir (path_join p file) \<in> set ops))
         \<and> (\<forall>q. lookup (tree w') (segs p @ q) = None)"
proof -
  obtain d where d: "depth = Suc d" using assms(1) by (cases depth) simp_all
  obtain r wr es where l: "lookup (tree w) (segs p) = Some (Dir r wr es)"
    using assms(2) by (auto simp: readdirSync_def split: option.splits node.splits if_splits)
  then have s: "statSync w p = Inr (Dir r wr es)" by (simp add: statSync_def)
  let ?loop = "forEach (\<lambda>file. removeRecursively d (path_join p file)) files w"
  obtain w1 where lp: "?loop = Some (None, w1)" and rm: "rmdirSync w1 p = (None, w')"
    using assms d s by (auto split: option.splits prod.splits)
  obtain ops where o: "calls w1 = calls w @ ops"
    and m: "\<forall>file \<in> set files. Unlink (path_join p file) \<in> set ops \<or>
                                  Rmdir (path_join p file) \<in> set ops"
    using forEach_each [OF lp] by blast
  have "calls w' = calls w @ ops @ [Rmdir p]"
    using rmdirSync_calls [OF rm] o by simp
  then show ?thesis
    using m rmdirSync_absent [OF rm] by blast
qed

subsection \<open>A removable tree is removed, children first\<close>

lemma map_of_update:
  "map_of (map (\<lambda>(k, c). if k = s then (k, g c) else (k, c)) es) s = map_option g (map_of es s)"
  by (induction es) auto

lemma lookup_update_at: "lookup t ss = Some n \<Longrightarrow> lookup (update_at ss f t) ss = Some (f n)"
proof (induction ss f t rule: update_at.induct)
  case (1 f n)
  then show ?case by simp
next
  case (2 s ss f)
  then show ?case by simp
next
  case (3 s ss f r w es)
  then show ?case
    by (auto simp: map_of_update split: option.splits dest: map_of_SomeD)
qed

lemma update_at_id: "update_at ss (\<lambda>n. n) t = t"
proof (induction ss "\<lambda>n :: node. n" t rule: update_at.induct)
  case (1 n)
  then show ?case by simp
next
  case (2 s ss)
  then show ?case by simp
next
  case (3 s ss r w es)
  have "map (\<lambda>(k, c). if k = s then (k, update_at ss (\<lambda>n. n) c) else (k, c)) es = map (\<lambda>e. e) es"
    by (rule map_cong) (auto simp: 3)
  then show ?case by simp
qed

lemma update_at_update_at:
  "update_at ss f (update_at ss g t) = update_at ss (\<lambda>n. f (g n)) t"
proof (induction ss g t rule: update_at.induct)
  case (1 g n)
  then show ?case by simp
next
  case (2 s ss g)
  then show ?case by simp
next
  case (3 s ss g r w es)
  have "map ((\<lambda>(k, c). if k = s then (k, update_at ss f c) else (k, c)) \<circ>
             (\<lambda>(k, c). if k = s then (k, update_at ss g c) else (k, c))) es
        = map (\<lambda>(k, c). if k = s then (k, update_at ss (\<lambda>n. f (g n)) c) else (k, c)) es"
    by (rule map_cong) (auto simp: 3)
  then show ?case by simp
qed

lemma parent_writable_update_at:
  "ss \<noteq> [] \<Longrightarrow> parent_writable (update_at ss f t) ss = parent_writable t ss"
proof (induction ss f t rule: update_at.induct)
  case (1 f n)
  then show ?case by simp
next
  case (2 s ss f)
  then show ?case by simp
next
  case (3 s ss f r w es)
  show ?case
  proof (cases "ss = []")
    case True
    then show ?thesis by (simp add: parent_writable_def)
  next
    case False
    show ?thesis
    proof (cases "map_of es s")
      case None
      then show ?thesis using False by (simp add: parent_writable_def map_of_update)
    next
      case (Some c)
      then have "(s, c) \<in> set es" by (rule map_of_SomeD)
      then have "parent_writable (update_at ss f c) ss = parent_writable c ss"
        using 3 False by blast
      then show ?thesis
        using False Some by (simp add: parent_writable_def map_of_update)
    qed
  qed
qed

lemma filter_updated:
  "filter (\<lambda>(k, c). k \<noteq> s) (map (\<lambda>(k, c). if k = s then (k, g c) else (k, c)) es)
   = filter (\<lambda>(k, c). k \<noteq> s) es"
  by (induction es) auto

lemma remove_at_update_at: "ss \<noteq> [] \<Longrightarrow> remove_at ss (update_at ss f t) = remove_at ss t"
proof (induction ss f t rule: update_at.induct)
  case (1 f n)
  then show ?case by simp
next
  case (2 s ss f)
  then show ?case by (simp add: remove_at_def)
next
  case (3 s ss f r w es)
  show ?case
  proof (cases "ss = []")
    case True
    then show ?thesis by (simp add: remove_at_def filter_updated)
  next
    case False
    have "map ((\<lambda>(k, c). if k = s then (k, update_at (butlast ss) (del_entry (last ss)) c)
                          else (k, c)) \<circ>
               (\<lambda>(k, c). if k = s then (k, update_at ss f c) else (k, c))) es
          = map (\<lambda>(k, c). if k = s then (k, update_at (butlast ss) (del_entry (last ss)) c)
                           else (k, c)) es"
      by (rule map_cong) (use 3 False in \<open>auto simp: remove_at_def\<close>)
    then show ?thesis using False by (simp add: remove_at_def)
  qed
qed

lemma remove_at_child: "remove_at (ss @ [k]) t = update_at ss (del_entry k) t"
  by (simp add: remove_at_def)

lemma filter_absent: "k \<notin> fst ` set es \<Longrightarrow> filter (\<lambda>(ka, c). ka \<noteq> k) es = es"
  by (force simp: filter_id_conv)

lemma removable_loop:
  assumes IH: "\<And>node q w. removable d node \<Longrightarrow> resolved q \<Longrightarrow> segs q \<noteq> [] \<Longrightarrow>
      lookup (tree w) (segs q) = Some node \<Longrightarrow> parent_writable (tree w) (segs q) \<Longrightarrow>
      \<exists>w'. removeRecursively d q w = Some (None, w') \<and>
           tree w' = remove_at (segs q) (tree w) \<and> calls w' = calls w @ postorder q node"
    and p: "resolved p"
  shows "lookup (tree w) (segs p) = Some (Dir True True es) \<Longrightarrow> distinct (map fst es) \<Longrightarrow>
         \<forall>e \<in> set es. valid_name (fst e) \<and> removable d (snd e) \<Longrightarrow>
         \<exists>w' F. forEach (\<lambda>f. removeRecursively d (path_join p f)) (map fst es) w = Some (None, w') \<and>
           tree w' = update_at (segs p) F (tree w) \<and>
           lookup (tree w') (segs p) = Some (Dir True True []) \<and>
           calls w' = calls w @ postorder_entries p es"
proof (induction es arbitrary: w)
  case Nil
  then show ?case
    by (intro exI [of _ w] exI [of _ "\<lambda>n. n"]) (simp add: update_at_id)
next
  case (Cons e es)
  obtain k c where e: "e = (k, c)" by (cases e)
  have vk: "valid_name k" and rc: "removable d c" using Cons.prems(3) e by auto
  have sj: "segs (path_join p k) = segs p @ [k]"
    using p vk by (intro segs_join) (simp_all add: valid_name_def)
  have rj: "resolved (path_join p k)"
    using p vk by (intro resolved_join) (simp_all add: valid_name_def)
  have lc: "lookup (tree w) (segs (path_join p k)) = Some c"
    using Cons.prems(1) e by (simp add: sj lookup_append)
  have pw: "parent_writable (tree w) (segs (path_join p k))"
    using Cons.prems(1) by (simp add: sj parent_writable_def)
  obtain w1 where first: "removeRecursively d (path_join p k) w = Some (None, w1)"
    and t1: "tree w1 = remove_at (segs (path_join p k)) (tree w)"
    and c1: "calls w1 = calls w @ postorder (path_join p k) c"
    using IH [OF rc rj _ lc pw] sj by auto
  have t1': "tree w1 = update_at (segs p) (del_entry k) (tree w)"
    using t1 by (simp add: sj remove_at_child)
  have "k \<notin> fst ` set es" using Cons.prems(2) e by simp
  then have l1: "lookup (tree w1) (segs p) = Some (Dir True True es)"
    using lookup_update_at [OF Cons.prems(1), of "del_entry k"] e
    by (simp add: t1' filter_absent)
  obtain w' F where rest: "forEach (\<lambda>f. removeRecursively d (path_join p f)) (map fst es) w1
      = Some (None, w')"
    and t': "tree w' = update_at (segs p) F (tree w1)"
    and l': "lookup (tree w') (segs p) = Some (Dir True True [])"
    and c': "calls w' = calls w1 @ postorder_entries p es"
    using Cons.IH [OF l1] Cons.prems(2,3) by auto
  have "forEach (\<lambda>f. removeRecursively d (path_join p f)) (map fst (e # es)) w = Some (None, w')"
    using first rest e by simp
  moreover have "tree w' = update_at (segs p) (\<lambda>n. F (del_entry k n)) (tree w)"
    using t' t1' by (simp add: update_at_update_at)
  moreover have "calls w' = calls w @ postorder_entries p (e # es)"
    using c' c1 e by simp
  ultimately show ?case using l' by blast
qed

lemma removeRecursively_removable:
  "removable depth node \<Longrightarrow> resolved p \<Longrightarrow> segs p \<noteq> [] \<Longrightarrow>
   lookup (tree w) (segs p) = Some node \<Longrightarrow> parent_writable (tree w) (segs p) \<Longrightarrow>
   \<exists>w'. removeRecursively depth p w = Some (None, w') \<and>
        tree w' = remove_at (segs p) (tree w) \<and> calls w' = calls w @ postorder p node"
proof (induction depth arbitrary: node p w)
  case 0
  then show ?case by simp
next
  case (Suc d)
  show ?case
  proof (cases node)
    case File
    have "statSync w p = Inr File" using Suc.prems(4) File by (simp add: statSync_def)
    moreover have "unlinkSync w p
        = (None, w\<lparr>calls := calls w @ [Unlink p], tree := remove_at (segs p) (tree w)\<rparr>)"
      using Suc.prems(4,5) File by (simp add: unlinkSync_def Let_def called_def)
    ultimately show ?thesis using File by simp
  next
    case (Dir r wr es)
    have flags: "r" "wr" and dis: "distinct (map fst es)"
      and all: "\<forall>e \<in> set es. valid_name (fst e) \<and> removable d (snd e)"
      using Suc.prems(1) Dir by auto
    have l: "lookup (tree w) (segs p) = Some (Dir True True es)"
      using Suc.prems(4) Dir flags by simp
    have st: "statSync w p = Inr (Dir True True es)" using l by (simp add: statSync_def)
    have rd: "readdirSync w p = Inr (map fst es)" using l by (simp add: readdirSync_def)
    obtain w1 F where lp: "forEach (\<lambda>f. removeRecursively d (path_join p f)) (map fst es) w
        = Some (None, w1)"
      and t1: "tree w1 = update_at (segs p) F (tree w)"
      and l1: "lookup (tree w1) (segs p) = Some (Dir True True [])"
      and c1: "calls w1 = calls w @ postorder_entries p es"
      using removable_loop [OF Suc.IH Suc.prems(2) l dis all] by blast
    have pw: "parent_writable (tree w1) (segs p)"
      using Suc.prems(3,5) by (simp add: t1 parent_writable_update_at)
    have rm: "rmdirSync w1 p
        = (None, w1\<lparr>calls := calls w1 @ [Rmdir p], tree := remove_at (segs p) (tree w1)\<rparr>)"
      using l1 pw Suc.prems(3) by (simp add: rmdirSync_def Let_def called_def)
    have "remove_at (segs p) (tree w1) = remove_at (segs p) (tree w)"
      using Suc.prems(3) by (simp add: t1 remove_at_update_at)
    then show ?thesis
      using st rd lp rm c1 Dir flags by simp
  qed
qed

subsection \<open>Some depth is enough\<close>

lemma removable_Suc: "removable d n \<Longrightarrow> removable (Suc d) n"
proof (induction d arbitrary: n)
  case 0
  then show ?case by simp
next
  case (Suc d)
  then show ?case by (cases n) auto
qed

lemma removable_mono: "removable d n \<Longrightarrow> d \<le> d' \<Longrightarrow> removable d' n"
  by (induction d' rule: nat_induct) (auto simp: le_Suc_eq removable_Suc)

lemma removable_tree_depth: "removable_tree n \<Longrightarrow> \<exists>d. removable d n"
proof (induction n)
  case File
  have "removable (Suc 0) File" by simp
  then show ?case by blast
next
  case (Dir r w es)
  have "\<forall>e \<in> set es. \<exists>d. removable d (snd e)"
  proof
    fix e assume e: "e \<in> set es"
    then have "removable_tree (snd e)" using Dir.prems by simp
    moreover have "snd e \<in> Basic_BNFs.snds e" by (cases e) simp
    ultimately show "\<exists>d. removable d (snd e)" using Dir.IH e by blast
  qed
  then obtain f where f: "\<forall>e \<in> set es. removable (f e) (snd e)"
    by metis
  have "\<forall>e \<in> set es. removable (Max (insert 0 (f ` set es))) (snd e)"
  proof
    fix e assume e: "e \<in> set es"
    then have "f e \<le> Max (insert 0 (f ` set es))" by (intro Max_ge) auto
    then show "removable (Max (insert 0 (f ` set es))) (snd e)"
      using f e removable_mono by blast
  qed
  then have "removable (Suc (Max (insert 0 (f ` set es)))) (Dir r w es)"
    using Dir.prems by simp
  then show ?case by blast
qed

text \<open>
  Claim C8. First, for any call of \<open>removeRecursively\<close> on a directory that ends without
  an exception: the last mutating call it made is the \<open>rmdir\<close> of the directory, before
  it come the calls that removed each of the listed children, and afterwards neither
  the directory nor anything below it exists. Second, a call on a tree that can be
  removed (directories that can be listed and changed, in a parent that can be changed)
  does end without an exception once the depth allowed exceeds the nesting of the tree:
  it leaves the filesystem without the tree, and the calls it made are those of the
  depth-first walk, for every directory the calls for its entries and then its own
  \<open>rmdir\<close>. Third, for every such tree some depth is enough.
\<close>

theorem removeRecursively_depth_first:
  "(removeRecursively depth p w = Some (None, w') \<and> readdirSync w p = Inr files \<longrightarrow>
      (\<exists>ops. calls w' = calls w @ ops @ [Rmdir p] \<and>
         (\<forall>f \<in> set files. Unlink (path_join p f) \<in> set ops \<or> Rmdir (path_join p f) \<in> set ops))
      \<and> (\<forall>q. lookup (tree w') (segs p @ q) = None))
   \<and> (resolved p \<and> p \<noteq> ''/'' \<and> lookup (tree w) (segs p) = Some node \<and>
      parent_writable (tree w) (segs p) \<and> removable depth node \<longrightarrow>
      (\<exists>w''. removeRecursively depth p w = Some (None, w'') \<and>
         tree w'' = remove_at (segs p) (tree w) \<and> calls w'' = calls w @ postorder p node))
   \<and> (removable_tree node \<longrightarrow> (\<exists>d. removable d node))"
proof (intro conjI impI)
  assume a: "removeRecursively depth p w = Some (None, w') \<and> readdirSync w p = Inr files"
  show "\<exists>ops. calls w' = calls w @ ops @ [Rmdir p] \<and>
         (\<forall>f \<in> set files. Unlink (path_join p f) \<in> set ops \<or> Rmdir (path_join p f) \<in> set ops)"
    using removeRecursively_directory [of depth p w w' files] a by blast
  show "\<forall>q. lookup (tree w') (segs p @ q) = None"
    using removeRecursively_directory [of depth p w w' files] a by blast
next
  assume b: "resolved p \<and> p \<noteq> ''/'' \<and> lookup (tree w) (segs p) = Some node \<and>
      parent_writable (tree w) (segs p) \<and> removable depth node"
  then have "segs p \<noteq> []" using resolved_not_root by blast
  then show "\<exists>w''. removeRecursively depth p w = Some (None, w'') \<and>
         tree w'' = remove_at (segs p) (tree w) \<and> calls w'' = calls w @ postorder p node"
    using removeRecursively_removable [of depth node p w] b by blast
next
  assume "removable_tree node"
  then show "\<exists>d. removable d node" by (rule removable_tree_depth)
qed

theorem removeRecursively_depth_first_witness:
  "resolved ''/w/src''
   \<and> readdirSync fs_workspace ''/w/src'' = Inr [''main.js'', ''lib'']
   \<and> lookup (tree fs_workspace) (segs ''/w/src'')
       = Some (Dir True True [(''main.js'', File), (''lib'', Dir True True [(''util.js'', File)])])
   \<and> parent_writable (tree fs_workspace) (segs ''/w/src'')
   \<and> removable_tree (Dir True True [(''main.js'', File), (''lib'', Dir True True [(''util.js'', File)])])
   \<and> removable 3 (Dir True True [(''main.js'', File), (''lib'', Dir True True [(''util.js'', File)])])
   \<and> map_option fst (removeRecursively 3 ''/w/src'' fs_workspace) = Some None
   \<and> map_option (\<lambda>r. calls (snd r)) (removeRecursively 3 ''/w/src'' fs_workspace)
       = Some [Unlink ''/w/src/main.js'', Unlink ''/w/src/lib/util.js'', Rmdir ''/w/src/lib'',
               Rmdir ''/w/src'']
   \<and> map_option (\<lambda>r. lookup (tree (snd r)) [''w'', ''src'']) (removeRecursively 3 ''/w/src'' fs_workspace)
       = Some None
   \<and> map_option (\<lambda>r. lookup (tree (snd r)) [''w'', ''src'', ''lib'', ''util.js''])
        (removeRecursively 3 ''/w/src'' fs_workspace) = Some None"
proof -
  let ?node = "Dir True True [(''main.js'', File), (''lib'', Dir True True [(''util.js'', File)])]"
  have sg: "segs ''/w/src'' = [''w'', ''src'']" by (simp add: segs_def)
  have r: "resolved ''/w/src''" by (simp add: resolved_def segs_def)
  have rd: "readdirSync fs_workspace ''/w/src'' = Inr [''main.js'', ''lib'']"
    by (simp add: readdirSync_def fs_workspace_def segs_def)
  have l: "lookup (tree fs_workspace) (segs ''/w/src'') = Some ?node"
    by (simp add: fs_workspace_def segs_def)
  have pw: "parent_writable (tree fs_workspace) (segs ''/w/src'')"
    by (simp add: parent_writable_def fs_workspace_def segs_def)
  have rt: "removable_tree ?node" by (simp add: valid_name_def seg_ok_def)
  have rm: "removable 3 ?node" by (simp add: numeral_3_eq_3 valid_name_def seg_ok_def)
  have po: "postorder ''/w/src'' ?node
      = [Unlink ''/w/src/main.js'', Unlink ''/w/src/lib/util.js'', Rmdir ''/w/src/lib'',
         Rmdir ''/w/src'']"
    by (simp add: path_join_def segs_def sep_def)
  obtain w'' where run: "removeRecursively 3 ''/w/src'' fs_workspace = Some (None, w'')"
    and cs: "calls w'' = calls fs_workspace @ postorder ''/w/src'' ?node"
    using removeRecursively_depth_first [of 3 "''/w/src''" fs_workspace w'' "[]" ?node]
      r l pw rm by auto
  have gone: "\<forall>q. lookup (tree w'') (segs ''/w/src'' @ q) = None"
    using removeRecursively_depth_first [of 3 "''/w/src''" fs_workspace w''
        "[''main.js'', ''lib'']" ?node] run rd by blast
  have g1: "lookup (tree w'') [''w'', ''src''] = None" using gone [rule_format, of "[]"] sg by simp
  have g2: "lookup (tree w'') [''w'', ''src'', ''lib'', ''util.js''] = None"
    using gone [rule_format, of "[''lib'', ''util.js'']"] sg by simp
  have c0: "calls fs_workspace = []" by (simp add: fs_workspace_def)
  have cs': "calls w'' = [Unlink ''/w/src/main.js'', Unlink ''/w/src/lib/util.js'',
      Rmdir ''/w/src/lib'', Rmdir ''/w/src'']"
    by (simp only: cs po c0 append_Nil)
  show ?thesis
    using r rd l pw rt rm run cs' g1 g2 by simp
qed

end
